theory Spec2Isabelle
  imports Main "HOL-Library.Word" "HOL-Library.AList" "HOL-Library.Sublist"
begin

section \<open>The event table sink (package tablesink)\<close>

subsection \<open>Timestamps, resolved timestamps and events (package model)\<close>

text \<open>
  \<open>model.Ts\<close> is a \<open>uint64\<close>. The sink only compares timestamps, it never does
  arithmetic on them.
\<close>

type_synonym Ts = "64 word"

text \<open>
  Modelled from the spec: the declaration of \<open>model.ResolvedTs\<close> is not among the
  sources. The spec gives its fields as \<open>{ ts, mode: Normal | BatchResolved, batchId }\<close>.
  Its comparison method \<open>EqualOrGreater\<close> is missing as well; the functions below that
  call it take it as their first argument, so that nothing is assumed about the order.
\<close>

datatype ResolvedMode = NormalResolvedMode | BatchResolvedMode

record ResolvedTs =
  Mode :: ResolvedMode
  Ts :: Ts
  BatchID :: "64 word"

text \<open>
  The sink is generic in its event type \<open>E\<close>, of which it uses the method
  \<open>GetCommitTs\<close> only. An event is a commit timestamp with an opaque payload.
\<close>

datatype 'p TableEvent = TableEvent (GetCommitTs: Ts) (Payload: 'p)

text \<open>
  \<open>dmlsink.CallbackableEvent\<close>: the event and the acknowledgement handle the tracker
  issued for it. The handle is the identifier that \<open>addEvent\<close> returned; invoking the
  callback is \<open>ack\<close> below. The third field of the source, \<open>SinkState\<close>, is the address
  of the sink's own state cell, the same for every event, and carries no value.
\<close>

record 'p CallbackableEvent =
  Event :: "'p TableEvent"
  Callback :: nat

subsection \<open>The state cell (package state)\<close>

datatype TableSinkState = TableSinkSinking | TableSinkStopping | TableSinkStopped

text \<open>
  Modelled from the spec: \<open>state.TableSinkState\<close> is not among the sources; the spec
  calls it an atomic cell that is CAS-mutated. \<open>Load\<close> reads the cell and
  \<open>CompareAndSwap\<close> writes the new value exactly when the cell holds the old one, and
  reports whether it did.
\<close>

definition Load :: "TableSinkState \<Rightarrow> TableSinkState" where
  "Load cell = cell"

definition CompareAndSwap ::
  "TableSinkState \<Rightarrow> TableSinkState \<Rightarrow> TableSinkState \<Rightarrow> bool \<times> TableSinkState" where
  "CompareAndSwap old new cell = (if cell = old then (True, new) else (False, cell))"

subsection \<open>The progress tracker\<close>

text \<open>
  Modelled from the spec: \<open>progressTracker\<close> and its methods are not among the
  sources. The spec (section 4.1) describes an ordered queue of pending items, the set of
  acknowledged identifiers, a frozen flag and the frontier that \<open>advance\<close> returns.
\<close>

datatype PendingItem = EventPending nat | ResolvedMarker ResolvedTs

record progressTracker =
  pendingQ :: "PendingItem list"
  acked :: "nat set"
  nextEventID :: nat
  frozen :: bool
  frontier :: ResolvedTs
  lastResolved :: "ResolvedTs option"

text \<open>
  Modelled from the spec: \<open>addEvent\<close> allocates a fresh, increasing identifier, appends
  \<open>EventPending\<close> for it to the queue and returns the handle.
\<close>

definition addEvent :: "progressTracker \<Rightarrow> nat \<times> progressTracker" where
  "addEvent t =
     (nextEventID t,
      t\<lparr>pendingQ := pendingQ t @ [EventPending (nextEventID t)],
        nextEventID := Suc (nextEventID t)\<rparr>)"

text \<open>Modelled from the spec: invoking a handle inserts its identifier into the acknowledged set.\<close>

definition ack :: "nat \<Rightarrow> progressTracker \<Rightarrow> progressTracker" where
  "ack i t = t\<lparr>acked := insert i (acked t)\<rparr>"

text \<open>
  Modelled from the spec: \<open>addResolvedTs r\<close> appends the marker provided that the
  tracker is not frozen and \<open>r\<close> is strictly greater than the last marker enqueued;
  otherwise the marker is silently dropped.
\<close>

definition addResolvedTs ::
  "(ResolvedTs \<Rightarrow> ResolvedTs \<Rightarrow> bool) \<Rightarrow> ResolvedTs \<Rightarrow> progressTracker \<Rightarrow> progressTracker" where
  "addResolvedTs EqualOrGreater r t =
     (if frozen t then t
      else case lastResolved t of
             None \<Rightarrow> t\<lparr>pendingQ := pendingQ t @ [ResolvedMarker r], lastResolved := Some r\<rparr>
           | Some l \<Rightarrow>
               if EqualOrGreater l r then t
               else t\<lparr>pendingQ := pendingQ t @ [ResolvedMarker r], lastResolved := Some r\<rparr>)"

text \<open>
  Modelled from the spec: \<open>advance\<close> pops the head of the queue as long as it is an
  acknowledged event (whose identifier leaves the acknowledged set) or a marker (which
  becomes the frontier), and returns the frontier.
\<close>

fun advanceLoop ::
  "PendingItem list \<Rightarrow> nat set \<Rightarrow> ResolvedTs \<Rightarrow> PendingItem list \<times> nat set \<times> ResolvedTs" where
  "advanceLoop [] A f = ([], A, f)"
| "advanceLoop (EventPending i # q) A f =
     (if i \<in> A then advanceLoop q (A - {i}) f else (EventPending i # q, A, f))"
| "advanceLoop (ResolvedMarker r # q) A f = advanceLoop q A r"

definition advance :: "progressTracker \<Rightarrow> ResolvedTs \<times> progressTracker" where
  "advance t =
     (case advanceLoop (pendingQ t) (acked t) (frontier t) of
        (q, A, f) \<Rightarrow> (f, t\<lparr>pendingQ := q, acked := A, frontier := f\<rparr>))"

definition freezeProcess :: "progressTracker \<Rightarrow> progressTracker" where
  "freezeProcess t = t\<lparr>frozen := True\<rparr>"

text \<open>
  Modelled from the spec: \<open>checkClosed dead\<close> is true iff the queue is empty or the
  backend is dead; with a dead backend the frontier moves to the last marker enqueued.
\<close>

definition checkClosed :: "bool \<Rightarrow> progressTracker \<Rightarrow> bool \<times> progressTracker" where
  "checkClosed dead t =
     (if dead then
        (True, case lastResolved t of None \<Rightarrow> t | Some l \<Rightarrow> t\<lparr>frontier := l\<rparr>)
      else (pendingQ t = [], t))"

text \<open>
  Modelled from the spec: \<open>waitClosed\<close> blocks until \<open>checkClosed\<close> returns true.
  While it waits, other threads act on the tracker: the backend fires acknowledgements
  and the scheduler polls the checkpoint. The list is what they do between two polls,
  in order; when it is used up and the tracker is still open, the call never returns,
  which is the value \<open>None\<close>.
\<close>

datatype TrackerEvent = AckFired nat | AdvanceCalled

fun trackerEvent :: "TrackerEvent \<Rightarrow> progressTracker \<Rightarrow> progressTracker" where
  "trackerEvent (AckFired i) t = ack i t"
| "trackerEvent AdvanceCalled t = snd (advance t)"

fun waitClosed :: "bool \<Rightarrow> TrackerEvent list \<Rightarrow> progressTracker \<Rightarrow> progressTracker option" where
  "waitClosed dead [] t =
     (case checkClosed dead t of (closed, t') \<Rightarrow> if closed then Some t' else None)"
| "waitClosed dead (ev # evs) t =
     (case checkClosed dead t of
        (closed, t') \<Rightarrow> if closed then Some t' else waitClosed dead evs (trackerEvent ev t'))"

subsection \<open>The backend sink and the table sink\<close>

text \<open>
  \<open>dmlsink.EventSink\<close> is an interface of an external collaborator. A backend is what
  it answers: the error of \<open>WriteEvents\<close> for a batch (\<open>None\<close> is Go's \<open>nil\<close>), and
  its liveness flag (the spec's \<open>dead() \<rightarrow> bool\<close>).
\<close>

record ('p, 'x) EventSink =
  WriteEvents :: "'p CallbackableEvent list \<Rightarrow> 'x option"
  Dead :: bool

text \<open>The calls the sink makes on the tracker's queue and on the backend.\<close>

datatype 'p Call =
    CallAddEvent nat
  | CallAddResolvedTs ResolvedTs
  | CallWriteEvents "'p CallbackableEvent list"

text \<open>
  The struct \<open>EventTableSink\<close>. The fields \<open>changefeedID\<close>, \<open>span\<close> and \<open>startTs\<close>
  are only read by log statements and are left out. \<open>eventAppender\<close> is the method
  \<open>Append\<close> of the appender strategy, \<open>metricsTableSinkTotalRows\<close> the counter of
  rows added. \<open>calls\<close> is not a field of the source: it records, in order, the calls
  the sink has made on its collaborators, so that their order can be stated.
\<close>

record ('p, 'r, 'x) EventTableSink =
  maxResolvedTs :: ResolvedTs
  backendSink :: "('p, 'x) EventSink"
  progressTracker :: progressTracker
  eventAppender :: "'p TableEvent list \<Rightarrow> 'r list \<Rightarrow> 'p TableEvent list"
  eventBuffer :: "'p TableEvent list"
  state :: TableSinkState
  metricsTableSinkTotalRows :: nat
  calls :: "'p Call list"

datatype 'x SinkError = SinkInternalError 'x

text \<open>\<open>AppendRowChangedEvents\<close>: no check of the state, no failure.\<close>

definition AppendRowChangedEvents ::
  "'r list \<Rightarrow> ('p, 'r, 'x) EventTableSink \<Rightarrow> ('p, 'r, 'x) EventTableSink" where
  "AppendRowChangedEvents rows e =
     e\<lparr>eventBuffer := eventAppender e (eventBuffer e) rows,
       metricsTableSinkTotalRows := metricsTableSinkTotalRows e + length rows\<rparr>"

text \<open>
  Modelled from the spec: the two appender strategies are not among the sources. The
  single-row strategy appends the rows to the buffer in insertion order.
\<close>

definition RowChangeEventAppender :: "'a list \<Rightarrow> 'a list \<Rightarrow> 'a list" where
  "RowChangeEventAppender buffer rows = buffer @ rows"

text \<open>
  Go's \<open>sort.Search n f\<close>: binary search for the least index in \<open>[0, n)\<close> at which
  \<open>f\<close> holds, \<open>n\<close> when there is none. \<open>f\<close> is only called below \<open>n\<close>. Go
  takes the midpoint in \<open>uint\<close> so that the sum does not overflow; on \<open>nat\<close> it
  cannot.
\<close>

function SearchLoop :: "(nat \<Rightarrow> bool) \<Rightarrow> nat \<Rightarrow> nat \<Rightarrow> nat" where
  "SearchLoop f i j =
     (if i < j then
        (let h = (i + j) div 2 in
         if \<not> f h then SearchLoop f (h + 1) j else SearchLoop f i h)
      else i)"
  by pat_completeness auto
termination
  by (relation "measure (\<lambda>(f, i, j). j - i)") auto

declare SearchLoop.simps [simp del]

definition Search :: "nat \<Rightarrow> (nat \<Rightarrow> bool) \<Rightarrow> nat" where
  "Search n f = SearchLoop f 0 n"

text \<open>
  The loop of \<open>UpdateResolvedTs\<close> over the drained events: one \<open>addEvent\<close> for each,
  whose handle is stored with the event.
\<close>

fun wrapEvents ::
  "'p TableEvent list \<Rightarrow> 'p CallbackableEvent list \<times> ('p, 'r, 'x) EventTableSink \<Rightarrow>
   'p CallbackableEvent list \<times> ('p, 'r, 'x) EventTableSink" where
  "wrapEvents [] acc = acc"
| "wrapEvents (ev # evs) (ces, e) =
     (let (cb, t) = addEvent (progressTracker e);
          e = e\<lparr>progressTracker := t, calls := calls e @ [CallAddEvent cb]\<rparr>;
          ce = \<lparr>Event = ev, Callback = cb\<rparr>
      in wrapEvents evs (ces @ [ce], e))"

text \<open>The two last statements of both branches: the marker, then the write.\<close>

definition markAndWrite ::
  "(ResolvedTs \<Rightarrow> ResolvedTs \<Rightarrow> bool) \<Rightarrow> ResolvedTs \<Rightarrow> 'p CallbackableEvent list \<Rightarrow>
   ('p, 'r, 'x) EventTableSink \<Rightarrow> 'x SinkError option \<times> ('p, 'r, 'x) EventTableSink" where
  "markAndWrite EqualOrGreater resolvedTs batch e =
     (let e = e\<lparr>progressTracker := addResolvedTs EqualOrGreater resolvedTs (progressTracker e),
                calls := calls e @ [CallAddResolvedTs resolvedTs]\<rparr>;
          err = WriteEvents (backendSink e) batch;
          e = e\<lparr>calls := calls e @ [CallWriteEvents batch]\<rparr>
      in case err of
           Some err \<Rightarrow> (Some (SinkInternalError err), e)
         | None \<Rightarrow> (None, e))"

definition UpdateResolvedTs ::
  "(ResolvedTs \<Rightarrow> ResolvedTs \<Rightarrow> bool) \<Rightarrow> ResolvedTs \<Rightarrow> ('p, 'r, 'x) EventTableSink \<Rightarrow>
   'x SinkError option \<times> ('p, 'r, 'x) EventTableSink" where
  "UpdateResolvedTs EqualOrGreater resolvedTs e =
     (if EqualOrGreater (maxResolvedTs e) resolvedTs then (None, e)
      else
        let e = e\<lparr>maxResolvedTs := resolvedTs\<rparr>;
            i = Search (length (eventBuffer e))
                  (\<lambda>i. GetCommitTs (eventBuffer e ! i) > Ts resolvedTs)
        in if i = 0 then markAndWrite EqualOrGreater resolvedTs [] e
           else
             let resolvedEvents = take i (eventBuffer e);
                 e = e\<lparr>eventBuffer := drop i (eventBuffer e)\<rparr>;
                 (resolvedCallbackableEvents, e) = wrapEvents resolvedEvents ([], e)
             in markAndWrite EqualOrGreater resolvedTs resolvedCallbackableEvents e)"

subsection \<open>The lifecycle: checkpoint, freeze and close\<close>

text \<open>
  \<open>GetCheckpointTs\<close> and \<open>markAsClosed\<close> call each other. The \<open>for\<close> loops around
  the compare-and-swap are recursive calls; in a run of one thread the swap that follows
  a load of the same cell succeeds, so the retry is never taken, which is what the
  termination proofs show.
\<close>

function GetCheckpointTs ::
    "('p, 'r, 'x) EventTableSink \<Rightarrow> ResolvedTs \<times> ('p, 'r, 'x) EventTableSink"
  and markAsClosed ::
    "('p, 'r, 'x) EventTableSink \<Rightarrow> bool \<times> ('p, 'r, 'x) EventTableSink" where
  "GetCheckpointTs e =
     (let e =
        (if Load (state e) = TableSinkStopping then
           (let (closed, t) = checkClosed (Dead (backendSink e)) (progressTracker e);
                e = e\<lparr>progressTracker := t\<rparr>
            in if closed then snd (markAsClosed e) else e)
         else e);
          (ts, t) = advance (progressTracker e)
      in (ts, e\<lparr>progressTracker := t\<rparr>))"
| "markAsClosed e =
     (let currentState = Load (state e) in
      if currentState = TableSinkStopped then (False, e)
      else
        let (swapped, cell) = CompareAndSwap currentState TableSinkStopped (state e);
            e = e\<lparr>state := cell\<rparr>
        in if swapped then
             (let (stoppedCheckpointTs, e) = GetCheckpointTs e in (True, e))
           else markAsClosed e)"
  by pat_completeness auto
termination
  apply (relation "measure (\<lambda>x. case x of
            Inl e \<Rightarrow> (if state e = TableSinkStopping then 2 else 0)
          | Inr e \<Rightarrow> (if state e = TableSinkStopped then 0 else 1))")
  apply (auto simp: Load_def CompareAndSwap_def split: if_splits)
  done

function freezeLoop :: "('p, 'r, 'x) EventTableSink \<Rightarrow> ('p, 'r, 'x) EventTableSink" where
  "freezeLoop e =
     (let currentState = Load (state e) in
      if currentState = TableSinkStopping \<or> currentState = TableSinkStopped then e
      else
        let (swapped, cell) = CompareAndSwap currentState TableSinkStopping (state e);
            e = e\<lparr>state := cell\<rparr>
        in if swapped then
             (let (stoppingCheckpointTs, e) = GetCheckpointTs e in e)
           else freezeLoop e)"
  by pat_completeness auto
termination
  apply (relation "{}")
  apply (auto simp: Load_def CompareAndSwap_def split: if_splits)
  done

declare GetCheckpointTs.simps [simp del] markAsClosed.simps [simp del] freezeLoop.simps [simp del]

definition freeze :: "('p, 'r, 'x) EventTableSink \<Rightarrow> ('p, 'r, 'x) EventTableSink" where
  "freeze e = freezeLoop (e\<lparr>progressTracker := freezeProcess (progressTracker e)\<rparr>)"

definition Close ::
  "TrackerEvent list \<Rightarrow> ('p, 'r, 'x) EventTableSink \<Rightarrow> ('p, 'r, 'x) EventTableSink option" where
  "Close others e =
     (let e = freeze e in
      case waitClosed (Dead (backendSink e)) others (progressTracker e) of
        None \<Rightarrow> None
      | Some t \<Rightarrow> Some (snd (markAsClosed (e\<lparr>progressTracker := t\<rparr>))))"

definition AsyncClose ::
  "('p, 'r, 'x) EventTableSink \<Rightarrow> bool \<times> ('p, 'r, 'x) EventTableSink" where
  "AsyncClose e =
     (let e = freeze e;
          (closed, t) = checkClosed (Dead (backendSink e)) (progressTracker e);
          e = e\<lparr>progressTracker := t\<rparr>
      in if closed then (True, snd (markAsClosed e)) else (False, e))"

fun state_rank :: "TableSinkState \<Rightarrow> nat" where
  "state_rank TableSinkSinking = 0"
| "state_rank TableSinkStopping = 1"
| "state_rank TableSinkStopped = 2"

subsection \<open>Sequences of calls\<close>

text \<open>
  The calls on a table sink, by the producer and the scheduler, and what the backend does
  to it in between: it fires an acknowledgement, or it dies. \<open>run\<close> makes the calls one
  after the other; a \<open>Close\<close> that never returns ends the run with \<open>None\<close>.
\<close>

datatype 'r SinkOp =
    OpAppend "'r list"
  | OpUpdateResolvedTs ResolvedTs
  | OpGetCheckpointTs
  | OpClose "TrackerEvent list"
  | OpAsyncClose
  | OpFreeze
  | OpMarkAsClosed
  | OpBackendAck nat
  | OpBackendDies

fun step ::
  "(ResolvedTs \<Rightarrow> ResolvedTs \<Rightarrow> bool) \<Rightarrow> 'r SinkOp \<Rightarrow> ('p, 'r, 'x) EventTableSink \<Rightarrow>
   ('p, 'r, 'x) EventTableSink option" where
  "step ge (OpAppend rows) e = Some (AppendRowChangedEvents rows e)"
| "step ge (OpUpdateResolvedTs r) e = Some (snd (UpdateResolvedTs ge r e))"
| "step ge OpGetCheckpointTs e = Some (snd (GetCheckpointTs e))"
| "step ge (OpClose others) e = Close others e"
| "step ge OpAsyncClose e = Some (snd (AsyncClose e))"
| "step ge OpFreeze e = Some (freeze e)"
| "step ge OpMarkAsClosed e = Some (snd (markAsClosed e))"
| "step ge (OpBackendAck i) e = Some (e\<lparr>progressTracker := ack i (progressTracker e)\<rparr>)"
| "step ge OpBackendDies e = Some (e\<lparr>backendSink := (backendSink e)\<lparr>Dead := True\<rparr>\<rparr>)"

fun run ::
  "(ResolvedTs \<Rightarrow> ResolvedTs \<Rightarrow> bool) \<Rightarrow> 'r SinkOp list \<Rightarrow> ('p, 'r, 'x) EventTableSink \<Rightarrow>
   ('p, 'r, 'x) EventTableSink option" where
  "run ge [] e = Some e"
| "run ge (op # ops) e = (case step ge op e of None \<Rightarrow> None | Some e' \<Rightarrow> run ge ops e')"

section \<open>The sink configuration (package config, sink.go)\<close>

subsection \<open>Errors and panics\<close>

text \<open>
  Modelled from the spec: the package \<open>cerror\<close> is not among the sources. The spec
  (section 7) gives every error a stable kind and a message naming the offending values.
  An error is its kind and the arguments of its message; \<open>ErrOther\<close> stands for the
  kinds of the code that is not modelled. \<open>Equal\<close> compares the kind; Go's \<open>nil\<close>
  error, \<open>None\<close>, is equal to no kind.
\<close>

datatype ErrCode =
    ErrSinkURIInvalid
  | ErrSinkInvalidConfig
  | ErrIncompatibleSinkConfig
  | ErrInvalidReplicaConfig
  | ErrStorageSinkInvalidDateSeparator
  | ErrOther string

datatype error = Error (code: ErrCode) (args: "string list")

definition GenWithStackByArgs :: "ErrCode \<Rightarrow> string list \<Rightarrow> error" where
  "GenWithStackByArgs c as = Error c as"

definition WrapError :: "ErrCode \<Rightarrow> string list \<Rightarrow> error" where
  "WrapError c cause = Error c cause"

fun Equal :: "ErrCode \<Rightarrow> error option \<Rightarrow> bool" where
  "Equal c None = False"
| "Equal c (Some err) = (code err = c)"

text \<open>
  A panic ends the program; a function that can panic returns \<open>Inl\<close> of it, and its
  callers pass it on.
\<close>

datatype panic = Panic string

subsection \<open>Constants and optional fields\<close>

definition TxnAtomicityKey :: string where "TxnAtomicityKey = ''transaction-atomicity''"

text \<open>
  Modelled from the spec: \<open>ProtocolKey\<close> is declared in a file that is not among the
  sources; the spec names the query parameter \<open>protocol\<close>.
\<close>

definition ProtocolKey :: string where "ProtocolKey = ''protocol''"

type_synonym AtomicityLevel = string

definition unknownTxnAtomicity :: AtomicityLevel where "unknownTxnAtomicity = ''''"
definition noneTxnAtomicity :: AtomicityLevel where "noneTxnAtomicity = ''none''"
definition tableTxnAtomicity :: AtomicityLevel where "tableTxnAtomicity = ''table''"

definition CR :: char where "CR = CHR 0x0D"
definition LF :: char where "LF = CHR 0x0A"
definition CRLF :: string where "CRLF = [CHR 0x0D, CHR 0x0A]"

definition MinFileIndexWidth :: int where "MinFileIndexWidth = 6"
definition MaxFileIndexWidth :: int where "MaxFileIndexWidth = 20"
definition DefaultFileIndexWidth :: int where "DefaultFileIndexWidth = MaxFileIndexWidth"

definition BinaryEncodingHex :: string where "BinaryEncodingHex = ''hex''"
definition BinaryEncodingBase64 :: string where "BinaryEncodingBase64 = ''base64''"

text \<open>
  Modelled from the spec: the package \<open>util\<close> is not among the sources. A pointer
  field is an optional value, \<open>None\<close> for \<open>nil\<close>; \<open>util.GetOrZero\<close> reads an unset
  field as the zero value of its type (the spec's "unset"), and \<open>util.AddressOf v\<close> is
  \<open>Some v\<close>.
\<close>

definition GetOrZero_string :: "string option \<Rightarrow> string" where
  "GetOrZero_string p = (case p of None \<Rightarrow> [] | Some v \<Rightarrow> v)"

definition GetOrZero_int :: "int option \<Rightarrow> int" where
  "GetOrZero_int p = (case p of None \<Rightarrow> 0 | Some v \<Rightarrow> v)"

definition GetOrZero_bool :: "bool option \<Rightarrow> bool" where
  "GetOrZero_bool p = (case p of None \<Rightarrow> False | Some v \<Rightarrow> v)"

definition AddressOf :: "'a \<Rightarrow> 'a option" where
  "AddressOf v = Some v"

subsection \<open>The configuration, the URI and the imported functions\<close>

record CSVConfig =
  Delimiter :: string
  Quote :: string
  NullString :: string
  IncludeCommitTs :: bool
  BinaryEncodingMethod :: string

record DispatchRule =
  Matcher :: "string list"
  DispatcherRule :: string
  PartitionRule :: string
  TopicRule :: string

text \<open>
  The struct \<open>SinkConfig\<close>, with the fields that the functions below read or write.
  The other fields (column selectors, schema registry, the Kafka, Pulsar, MySQL and
  cloud storage sub-records and the like) are touched by none of them.
\<close>

record SinkConfig =
  TxnAtomicity :: "AtomicityLevel option"
  Protocol :: "string option"
  DispatchRules :: "DispatchRule list"
  CSVConfig :: "CSVConfig option"
  EncoderConcurrency :: "int option"
  Terminator :: "string option"
  DateSeparator :: "string option"
  FileIndexWidth :: "int option"
  DeleteOnlyOutputHandleKeyColumns :: "bool option"

text \<open>
  Go's \<open>url.URL\<close>: the scheme, and the query as \<open>URL.Query()\<close> parses it, a list of
  values for every key. \<open>Values.Get\<close> is the first value of the key, the empty string
  when there is none.
\<close>

record URL =
  Scheme :: string
  Query :: "string \<Rightarrow> string list"

definition Get :: "(string \<Rightarrow> string list) \<Rightarrow> string \<Rightarrow> string" where
  "Get params key = (case params key of [] \<Rightarrow> [] | v # vs \<Rightarrow> v)"

text \<open>
  The functions of other packages and files that \<open>sink.go\<close> calls and that are not
  among the sources: the scheme families of package \<open>sink\<close>, the parser of protocol
  names with the constant \<open>ProtocolCsv\<close> (\<open>Protocol\<close> is a Go \<open>int\<close>), and Go's
  \<open>url.Parse\<close>, which answers the text of its error or the URL. They are parameters
  of the model.
\<close>

type_synonym Protocol = int

record Imports =
  IsMQScheme :: "string \<Rightarrow> bool"
  IsStorageScheme :: "string \<Rightarrow> bool"
  IsMySQLCompatibleScheme :: "string \<Rightarrow> bool"
  ParseSinkProtocolFromString :: "string \<Rightarrow> Protocol \<times> error option"
  ProtocolCsv :: Protocol
  url_Parse :: "string \<Rightarrow> string + URL"

subsection \<open>Validation of the parts\<close>

definition validate :: "Imports \<Rightarrow> AtomicityLevel \<Rightarrow> string \<Rightarrow> error option" where
  "validate I l scheme =
     (if l = unknownTxnAtomicity then None
      else if l = noneTxnAtomicity then None
      else if l = tableTxnAtomicity then
        (if IsMQScheme I scheme then
           Some (GenWithStackByArgs ErrSinkURIInvalid
                   [l @ '' level atomicity is not supported by '' @ scheme @ '' scheme''])
         else None)
      else
        Some (GenWithStackByArgs ErrSinkURIInvalid
                [l @ '' level atomicity is not supported by '' @ scheme @ '' scheme'']))"

definition CSVConfig_validateAndAdjust :: "CSVConfig option \<Rightarrow> error option" where
  "CSVConfig_validateAndAdjust c' =
     (case c' of
        None \<Rightarrow> None
      | Some c \<Rightarrow>
          if length (Quote c) > 1 then
            Some (WrapError ErrSinkInvalidConfig
                    [''csv config quote contains more than one character''])
          else if length (Quote c) = 1 \<and> (Quote c ! 0 = CR \<or> Quote c ! 0 = LF) then
            Some (WrapError ErrSinkInvalidConfig
                    [''csv config quote cannot be line break character''])
          else if length (Delimiter c) = 0 then
            Some (WrapError ErrSinkInvalidConfig [''csv config delimiter cannot be empty''])
          else if CR \<in> set (Delimiter c) \<or> LF \<in> set (Delimiter c) then
            Some (WrapError ErrSinkInvalidConfig
                    [''csv config delimiter contains line break characters''])
          else if length (Quote c) > 0 \<and> sublist (Quote c) (Delimiter c) then
            Some (WrapError ErrSinkInvalidConfig
                    [''csv config quote and delimiter cannot be the same''])
          else if BinaryEncodingMethod c = BinaryEncodingHex
                  \<or> BinaryEncodingMethod c = BinaryEncodingBase64 then None
          else
            Some (WrapError ErrSinkInvalidConfig
                    [''csv config binary-encoding-method can only be hex or base64'']))"

datatype DateSeparator =
  DateSeparatorNone | DateSeparatorYear | DateSeparatorMonth | DateSeparatorDay

text \<open>
  Go's \<open>strings.ToLower\<close> on the bytes of ASCII. No rune outside ASCII has one of the
  letters of \<open>none\<close>, \<open>year\<close>, \<open>month\<close> and \<open>day\<close> as its lower case, so the
  comparison below answers as the source's does.
\<close>

definition toLowerChar :: "char \<Rightarrow> char" where
  "toLowerChar c =
     (let n = (of_char c :: nat) in if 65 \<le> n \<and> n \<le> 90 then char_of (n + 32) else c)"

definition ToLower :: "string \<Rightarrow> string" where
  "ToLower s = map toLowerChar s"

definition FromString :: "string \<Rightarrow> error + DateSeparator" where
  "FromString separator =
     (let l = ToLower separator in
      if l = ''none'' then Inr DateSeparatorNone
      else if l = ''year'' then Inr DateSeparatorYear
      else if l = ''month'' then Inr DateSeparatorMonth
      else if l = ''day'' then Inr DateSeparatorDay
      else Inl (GenWithStackByArgs ErrStorageSinkInvalidDateSeparator [separator]))"

text \<open>
  The loop of \<open>validateAndAdjust\<close> over the dispatch rules. The rules are pointers:
  the rules before a rejected one stay adjusted.
\<close>

fun adjustDispatchRules :: "DispatchRule list \<Rightarrow> error option \<times> DispatchRule list" where
  "adjustDispatchRules [] = (None, [])"
| "adjustDispatchRules (rule # rules) =
     (if DispatcherRule rule \<noteq> [] \<and> PartitionRule rule \<noteq> [] then
        (Some (WrapError ErrSinkInvalidConfig
                 [''dispatcher and partition cannot be configured both for rule'']),
         rule # rules)
      else
        let rule = (if DispatcherRule rule \<noteq> []
                    then rule\<lparr>PartitionRule := DispatcherRule rule, DispatcherRule := []\<rparr>
                    else rule);
            (err, rules) = adjustDispatchRules rules
        in (err, rule # rules))"

subsection \<open>Reconciliation with the sink URI\<close>

text \<open>
  The two maps of \<open>applyParameterBySinkURI\<close> are lists of pairs with distinct keys;
  \<open>m[k] = v\<close> is \<open>AList.update k v m\<close> and \<open>len\<close> is the length. Go ranges over a map
  in an order it does not specify; \<open>getErrMsg\<close> here takes the pairs in the order of
  insertion. Slicing off the last two bytes of an empty text would panic.
\<close>

definition getErrMsg :: "(string \<times> string) list \<Rightarrow> panic + string" where
  "getErrMsg cfgIn =
     (let errMsg = concat (map (\<lambda>(k, v). k @ ''='' @ v @ '', '') cfgIn) in
      if length errMsg < 2 then Inl (Panic ''slice bounds out of range'')
      else Inr (take (length errMsg - 2) errMsg))"

definition getError ::
  "(string \<times> string) list \<Rightarrow> (string \<times> string) list \<Rightarrow> panic + error option" where
  "getError cfgInSinkURI cfgInFile =
     (if length cfgInSinkURI \<noteq> length cfgInFile then
        Inl (Panic ''inconsistent configuration items in sink uri and configuration file'')
      else if length cfgInSinkURI = 0 \<and> length cfgInFile = 0 then Inr None
      else
        case getErrMsg cfgInSinkURI of
          Inl p \<Rightarrow> Inl p
        | Inr inURI \<Rightarrow>
            (case getErrMsg cfgInFile of
               Inl p \<Rightarrow> Inl p
             | Inr inFile \<Rightarrow>
                 Inr (Some (GenWithStackByArgs ErrIncompatibleSinkConfig [inURI, inFile]))))"

text \<open>
  The statements of \<open>applyParameterBySinkURI\<close> before its closure \<open>getError\<close>, for a
  URI that is not \<open>nil\<close>: the two maps and the configuration as they stand when the
  closure is called.
\<close>

definition collectParameters ::
  "SinkConfig \<Rightarrow> URL \<Rightarrow> (string \<times> string) list \<times> (string \<times> string) list \<times> SinkConfig" where
  "collectParameters s sinkURI =
     (let cfgInSinkURI = [];
          cfgInFile = [];
          params = Query sinkURI;
          txnAtomicityFromURI = Get params TxnAtomicityKey;
          (cfgInSinkURI, cfgInFile, s) =
            (if txnAtomicityFromURI \<noteq> unknownTxnAtomicity then
               let (cfgInSinkURI, cfgInFile) =
                     (if GetOrZero_string (TxnAtomicity s) \<noteq> unknownTxnAtomicity
                         \<and> GetOrZero_string (TxnAtomicity s) \<noteq> txnAtomicityFromURI
                      then (AList.update TxnAtomicityKey txnAtomicityFromURI cfgInSinkURI,
                            AList.update TxnAtomicityKey (GetOrZero_string (TxnAtomicity s))
                              cfgInFile)
                      else (cfgInSinkURI, cfgInFile))
               in (cfgInSinkURI, cfgInFile, s\<lparr>TxnAtomicity := AddressOf txnAtomicityFromURI\<rparr>)
             else (cfgInSinkURI, cfgInFile, s));
          protocolFromURI = Get params ProtocolKey
      in if protocolFromURI \<noteq> [] then
           let (cfgInSinkURI, cfgInFile) =
                 (if Protocol s \<noteq> None \<and> GetOrZero_string (Protocol s) \<noteq> protocolFromURI
                  then (AList.update ProtocolKey protocolFromURI cfgInSinkURI,
                        AList.update ProtocolKey (GetOrZero_string (Protocol s)) cfgInFile)
                  else (cfgInSinkURI, cfgInFile))
           in (cfgInSinkURI, cfgInFile, s\<lparr>Protocol := AddressOf protocolFromURI\<rparr>)
         else (cfgInSinkURI, cfgInFile, s))"

text \<open>
  \<open>applyParameterBySinkURI\<close> writes through its receiver: the configuration is
  returned next to the error, changed also when the error is not \<open>nil\<close>.
\<close>

definition applyParameterBySinkURI ::
  "SinkConfig \<Rightarrow> URL option \<Rightarrow> panic + (error option \<times> SinkConfig)" where
  "applyParameterBySinkURI s sinkURI' =
     (case sinkURI' of
        None \<Rightarrow> Inr (None, s)
      | Some sinkURI \<Rightarrow>
          (case collectParameters s sinkURI of
             (cfgInSinkURI, cfgInFile, s) \<Rightarrow>
               (case getError cfgInSinkURI cfgInFile of
                  Inl p \<Rightarrow> Inl p
                | Inr err \<Rightarrow> Inr (err, s))))"

definition validateAndAdjustSinkURI ::
  "Imports \<Rightarrow> SinkConfig \<Rightarrow> URL option \<Rightarrow> panic + (error option \<times> SinkConfig)" where
  "validateAndAdjustSinkURI I s sinkURI' =
     (case sinkURI' of
        None \<Rightarrow> Inr (None, s)
      | Some sinkURI \<Rightarrow>
          (case applyParameterBySinkURI s sinkURI' of
             Inl p \<Rightarrow> Inl p
           | Inr (err, s) \<Rightarrow>
               if err \<noteq> None \<and> \<not> Equal ErrIncompatibleSinkConfig err then Inr (err, s)
               else
                 (case validate I (GetOrZero_string (TxnAtomicity s)) (Scheme sinkURI) of
                    Some err \<Rightarrow> Inr (Some err, s)
                  | None \<Rightarrow>
                      if IsMQScheme I (Scheme sinkURI) \<or> IsStorageScheme I (Scheme sinkURI) then
                        (case snd (ParseSinkProtocolFromString I (GetOrZero_string (Protocol s))) of
                           Some err \<Rightarrow> Inr (Some err, s)
                         | None \<Rightarrow> Inr (None, s))
                      else if IsMySQLCompatibleScheme I (Scheme sinkURI) \<and> Protocol s \<noteq> None then
                        Inr (Some (GenWithStackByArgs ErrSinkURIInvalid
                               [''protocol '' @ GetOrZero_string (Protocol s)
                                @ '' is incompatible with '' @ Scheme sinkURI @ '' scheme'']), s)
                      else Inr (None, s))))"

subsection \<open>Validation of the whole configuration\<close>

text \<open>
  The block of \<open>validateAndAdjust\<close> that its comment calls the storage sink related
  config: the date separator, the file index width and the CSV sub-config. The result
  is the error returned (\<open>None\<close> when the block falls through to \<open>return nil\<close>) and
  the configuration.
\<close>

definition validateStorage :: "SinkConfig \<Rightarrow> error option \<times> SinkConfig" where
  "validateStorage s =
     (case (if length (GetOrZero_string (DateSeparator s)) > 0
            then FromString (GetOrZero_string (DateSeparator s))
            else Inr DateSeparatorNone) of
        Inl err \<Rightarrow> (Some (WrapError ErrSinkInvalidConfig (args err)), s)
      | Inr separator \<Rightarrow>
          let s = (if GetOrZero_int (FileIndexWidth s) < MinFileIndexWidth
                      \<or> GetOrZero_int (FileIndexWidth s) > MaxFileIndexWidth
                   then s\<lparr>FileIndexWidth := AddressOf DefaultFileIndexWidth\<rparr>
                   else s)
          in (CSVConfig_validateAndAdjust (CSVConfig s), s))"

text \<open>
  The statements of \<open>validateAndAdjust\<close> from the loop over the dispatch rules to the
  end, for a URI that is not \<open>nil\<close>. The message of \<open>encoder-concurrency\<close> formats a
  pointer and is kept without it.
\<close>

definition validateRules :: "Imports \<Rightarrow> URL \<Rightarrow> SinkConfig \<Rightarrow> error option \<times> SinkConfig" where
  "validateRules I sinkURI s =
     (case adjustDispatchRules (DispatchRules s) of
        (Some err, rules) \<Rightarrow> (Some err, s\<lparr>DispatchRules := rules\<rparr>)
      | (None, rules) \<Rightarrow>
          let s = s\<lparr>DispatchRules := rules\<rparr> in
          if GetOrZero_int (EncoderConcurrency s) < 0 then
            (Some (GenWithStackByArgs ErrSinkInvalidConfig
                     [''encoder-concurrency should greater than 0'']), s)
          else
            let s = (if Terminator s = None then s\<lparr>Terminator := AddressOf CRLF\<rparr> else s);
                protocol = fst (ParseSinkProtocolFromString I (GetOrZero_string (Protocol s)))
            in if GetOrZero_bool (DeleteOnlyOutputHandleKeyColumns s)
                  \<and> protocol = ProtocolCsv I then
                 (Some (GenWithStackByArgs ErrSinkInvalidConfig
                          [''CSV protocol always output all columns for the delete event, ''
                           @ ''do not set `delete-only-output-handle-key-columns` to true'']),
                  s)
               else if IsStorageScheme I (Scheme sinkURI) then validateStorage s
               else (None, s))"

text \<open>
  \<open>validateAndAdjust\<close> reads \<open>sinkURI.Scheme\<close> right after
  \<open>validateAndAdjustSinkURI\<close> has returned \<open>nil\<close>, which for a \<open>nil\<close> URI is a
  \<open>nil\<close> dereference.
\<close>

definition validateAndAdjust ::
  "Imports \<Rightarrow> SinkConfig \<Rightarrow> URL option \<Rightarrow> panic + (error option \<times> SinkConfig)" where
  "validateAndAdjust I s sinkURI' =
     (case validateAndAdjustSinkURI I s sinkURI' of
        Inl p \<Rightarrow> Inl p
      | Inr (Some err, s) \<Rightarrow> Inr (Some err, s)
      | Inr (None, s) \<Rightarrow>
          (case sinkURI' of
             None \<Rightarrow> Inl (Panic ''invalid memory address or nil pointer dereference'')
           | Some sinkURI \<Rightarrow>
               if IsMySQLCompatibleScheme I (Scheme sinkURI) then Inr (None, s)
               else Inr (validateRules I sinkURI s)))"

subsection \<open>The compatibility check\<close>

text \<open>
  \<open>CheckCompatibilityWithSinkURI\<close> compares \<open>s.Protocol != oldSinkConfig.Protocol\<close>
  and the same for \<open>TxnAtomicity\<close>: these are comparisons of two pointers, not of the
  texts behind them. Whether two pointers that are both set are the same pointer is not
  a function of what they point to, so it is an input of the model, one flag for each
  of the two fields. Two \<open>nil\<close> pointers are equal; a \<open>nil\<close> and a set pointer differ.
\<close>

record Aliasing =
  sameProtocol :: bool
  sameTxnAtomicity :: bool

definition pointersDiffer :: "bool \<Rightarrow> 'a option \<Rightarrow> 'a option \<Rightarrow> bool" where
  "pointersDiffer same p q =
     (case (p, q) of
        (None, None) \<Rightarrow> False
      | (Some x, Some y) \<Rightarrow> \<not> same
      | _ \<Rightarrow> True)"

text \<open>
  The closure \<open>isURIParamsChanged\<close>: it reconciles a copy of the old configuration,
  which itself stays as it is.
\<close>

definition isURIParamsChanged :: "SinkConfig \<Rightarrow> URL \<Rightarrow> panic + bool" where
  "isURIParamsChanged oldCfg sinkURI =
     (case applyParameterBySinkURI oldCfg (Some sinkURI) of
        Inl p \<Rightarrow> Inl p
      | Inr (err, oldCfg) \<Rightarrow> Inr (Equal ErrIncompatibleSinkConfig err))"

definition CheckCompatibilityWithSinkURI ::
  "Imports \<Rightarrow> Aliasing \<Rightarrow> SinkConfig \<Rightarrow> SinkConfig \<Rightarrow> string \<Rightarrow>
   panic + (error option \<times> SinkConfig)" where
  "CheckCompatibilityWithSinkURI I al s oldSinkConfig sinkURIStr =
     (case url_Parse I sinkURIStr of
        Inl err \<Rightarrow> Inr (Some (WrapError ErrSinkURIInvalid [err]), s)
      | Inr sinkURI \<Rightarrow>
          let cfgParamsChanged =
                (pointersDiffer (sameProtocol al) (Protocol s) (Protocol oldSinkConfig)
                 \<or> pointersDiffer (sameTxnAtomicity al) (TxnAtomicity s)
                      (TxnAtomicity oldSinkConfig))
          in case isURIParamsChanged oldSinkConfig sinkURI of
               Inl p \<Rightarrow> Inl p
             | Inr uriParamsChanged \<Rightarrow>
                 if \<not> uriParamsChanged \<and> \<not> cfgParamsChanged then Inr (None, s)
                 else
                   (case applyParameterBySinkURI s (Some sinkURI) of
                      Inl p \<Rightarrow> Inl p
                    | Inr (compatibilityError, s) \<Rightarrow>
                        if uriParamsChanged \<and> Equal ErrIncompatibleSinkConfig compatibilityError
                        then Inr (None, s)
                        else Inr (compatibilityError, s)))"

section \<open>Auxiliary definitions for the statements\<close>

text \<open>What \<open>sort.Search n f\<close> returns: the boundary of a monotone predicate.\<close>

definition search_post :: "nat \<Rightarrow> (nat \<Rightarrow> bool) \<Rightarrow> nat \<Rightarrow> bool" where
  "search_post n f r = (r \<le> n \<and> (\<forall>k < r. \<not> f k) \<and> (\<forall>k. r \<le> k \<and> k < n \<longrightarrow> f k))"

text \<open>
  The batch that wraps the events \<open>evs\<close> with consecutive handles from \<open>n\<close> on, and
  the tracker after \<open>k\<close> calls of \<open>addEvent\<close>.
\<close>

definition wrapped :: "nat \<Rightarrow> 'p TableEvent list \<Rightarrow> 'p CallbackableEvent list" where
  "wrapped n evs = map (\<lambda>(ev, i). \<lparr>Event = ev, Callback = i\<rparr>) (zip evs [n ..< n + length evs])"

definition addEvents :: "nat \<Rightarrow> progressTracker \<Rightarrow> progressTracker" where
  "addEvents k t =
     t\<lparr>pendingQ := pendingQ t @ map EventPending [nextEventID t ..< nextEventID t + k],
       nextEventID := nextEventID t + k\<rparr>"

text \<open>
  Concrete inputs for the examples: a comparison of resolved timestamps by \<open>Ts\<close>,
  a fresh tracker, and a sink over a backend that answers every write the same way.
\<close>

definition tsOrder :: "ResolvedTs \<Rightarrow> ResolvedTs \<Rightarrow> bool" where
  "tsOrder a b = (Ts b \<le> Ts a)"

definition resolved :: "Ts \<Rightarrow> ResolvedTs" where
  "resolved t = \<lparr>Mode = NormalResolvedMode, Ts = t, BatchID = 0\<rparr>"

definition emptyTracker :: progressTracker where
  "emptyTracker =
     \<lparr>pendingQ = [], acked = {}, nextEventID = 0, frozen = False,
      frontier = resolved 0, lastResolved = None\<rparr>"

definition exampleSink ::
  "(string \<Rightarrow> string option) \<Rightarrow> unit TableEvent list \<Rightarrow> TableSinkState \<Rightarrow>
   (unit, unit TableEvent, string) EventTableSink" where
  "exampleSink answer buffer st =
     \<lparr>maxResolvedTs = resolved 0,
      backendSink = \<lparr>WriteEvents = (\<lambda>batch. answer ''write''), Dead = False\<rparr>,
      progressTracker = emptyTracker,
      eventAppender = RowChangeEventAppender,
      eventBuffer = buffer,
      state = st,
      metricsTableSinkTotalRows = 0,
      calls = []\<rparr>"

definition sink357 :: "(unit, unit TableEvent, string) EventTableSink" where
  "sink357 = exampleSink Map.empty [TableEvent 3 (), TableEvent 5 (), TableEvent 7 ()] TableSinkSinking"

definition sinkAt50 :: "(unit, unit TableEvent, string) EventTableSink" where
  "sinkAt50 = snd (UpdateResolvedTs tsOrder (resolved 50) (exampleSink Map.empty [] TableSinkSinking))"

definition failingSink :: "(unit, unit TableEvent, string) EventTableSink" where
  "failingSink =
     exampleSink (\<lambda>w. Some ''backend is gone'') [TableEvent 3 (), TableEvent 9 ()] TableSinkSinking"

definition pendingSink :: "(unit, unit TableEvent, string) EventTableSink" where
  "pendingSink =
     snd (UpdateResolvedTs tsOrder (resolved 6)
            (exampleSink Map.empty [TableEvent 3 ()] TableSinkSinking))"

definition stoppedSink :: "(unit, unit TableEvent, string) EventTableSink" where
  "stoppedSink = exampleSink Map.empty [] TableSinkStopped"

text \<open>
  The text that \<open>getErrMsg\<close> builds from the pairs of a map: \<open>k=v\<close> for each,
  separated by a comma and a blank.
\<close>

fun showPairs :: "(string \<times> string) list \<Rightarrow> string" where
  "showPairs [] = []"
| "showPairs [(k, v)] = k @ ''='' @ v"
| "showPairs ((k, v) # p # ps) = k @ ''='' @ v @ '', '' @ showPairs (p # ps)"

text \<open>
  What the reconciliation with a URI finds and does. The transaction atomicity of URI
  and configuration differ when both are non-empty and unequal; the protocols differ
  when the URI's is non-empty, the configuration's field is set (to any text, also the
  empty one) and the two are unequal. \<open>inSinkURI\<close> and \<open>inFile\<close> are the two maps,
  \<open>uriWins\<close> is the configuration with the non-empty values of the URI written in.
\<close>

definition txnAtomicityDiffers :: "SinkConfig \<Rightarrow> URL \<Rightarrow> bool" where
  "txnAtomicityDiffers s u =
     (Get (Query u) TxnAtomicityKey \<noteq> [] \<and> GetOrZero_string (TxnAtomicity s) \<noteq> []
      \<and> GetOrZero_string (TxnAtomicity s) \<noteq> Get (Query u) TxnAtomicityKey)"

definition protocolDiffers :: "SinkConfig \<Rightarrow> URL \<Rightarrow> bool" where
  "protocolDiffers s u =
     (Get (Query u) ProtocolKey \<noteq> [] \<and> Protocol s \<noteq> None
      \<and> GetOrZero_string (Protocol s) \<noteq> Get (Query u) ProtocolKey)"

definition inSinkURI :: "SinkConfig \<Rightarrow> URL \<Rightarrow> (string \<times> string) list" where
  "inSinkURI s u =
     (if txnAtomicityDiffers s u then [(TxnAtomicityKey, Get (Query u) TxnAtomicityKey)] else [])
     @ (if protocolDiffers s u then [(ProtocolKey, Get (Query u) ProtocolKey)] else [])"

definition inFile :: "SinkConfig \<Rightarrow> URL \<Rightarrow> (string \<times> string) list" where
  "inFile s u =
     (if txnAtomicityDiffers s u then [(TxnAtomicityKey, GetOrZero_string (TxnAtomicity s))] else [])
     @ (if protocolDiffers s u then [(ProtocolKey, GetOrZero_string (Protocol s))] else [])"

definition uriWins :: "SinkConfig \<Rightarrow> URL \<Rightarrow> SinkConfig" where
  "uriWins s u =
     s\<lparr>TxnAtomicity := (if Get (Query u) TxnAtomicityKey \<noteq> []
                         then Some (Get (Query u) TxnAtomicityKey) else TxnAtomicity s),
       Protocol := (if Get (Query u) ProtocolKey \<noteq> []
                    then Some (Get (Query u) ProtocolKey) else Protocol s)\<rparr>"

text \<open>
  The checks of \<open>validateAndAdjustSinkURI\<close> that follow the reconciliation: the
  atomicity level against the scheme, then the protocol against the scheme.
\<close>

definition checkSchemeParameters :: "Imports \<Rightarrow> URL \<Rightarrow> SinkConfig \<Rightarrow> error option" where
  "checkSchemeParameters I u s =
     (case validate I (GetOrZero_string (TxnAtomicity s)) (Scheme u) of
        Some err \<Rightarrow> Some err
      | None \<Rightarrow>
          if IsMQScheme I (Scheme u) \<or> IsStorageScheme I (Scheme u) then
            snd (ParseSinkProtocolFromString I (GetOrZero_string (Protocol s)))
          else if IsMySQLCompatibleScheme I (Scheme u) \<and> Protocol s \<noteq> None then
            Some (Error ErrSinkURIInvalid
                    [''protocol '' @ GetOrZero_string (Protocol s)
                     @ '' is incompatible with '' @ Scheme u @ '' scheme''])
          else None)"

text \<open>
  Concrete inputs for the examples: a configuration with every field unset, URIs with
  a scheme and query pairs, and an instance of the imported functions.
\<close>

definition baseConfig :: SinkConfig where
  "baseConfig =
     \<lparr>TxnAtomicity = None, Protocol = None, DispatchRules = [], CSVConfig = None,
      EncoderConcurrency = None, Terminator = None, DateSeparator = None,
      FileIndexWidth = None, DeleteOnlyOutputHandleKeyColumns = None\<rparr>"

definition uriOf :: "string \<Rightarrow> (string \<times> string) list \<Rightarrow> URL" where
  "uriOf scheme ps = \<lparr>Scheme = scheme, Query = (\<lambda>k. map snd (filter (\<lambda>p. fst p = k) ps))\<rparr>"

definition kafkaOpen :: URL where
  "kafkaOpen = uriOf ''kafka'' [(''protocol'', ''open'')]"

definition exampleImports :: Imports where
  "exampleImports =
     \<lparr>IsMQScheme = (\<lambda>s. s \<in> set [''kafka'', ''kafka+ssl'', ''pulsar'']),
      IsStorageScheme = (\<lambda>s. s \<in> set [''file'', ''s3'', ''gcs'', ''azblob'']),
      IsMySQLCompatibleScheme = (\<lambda>s. s \<in> set [''mysql'', ''tidb'']),
      ParseSinkProtocolFromString =
        (\<lambda>p. if p = ''open'' then (1, None)
             else if p = ''canal-json'' then (2, None)
             else if p = ''csv'' then (3, None)
             else (0, Some (Error (ErrOther ''ErrSinkUnknownProtocol'') [p]))),
      ProtocolCsv = 3,
      url_Parse =
        (\<lambda>str. if str = ''kafka://127.0.0.1:9092/topic?protocol=open'' then Inr kafkaOpen
               else Inl ''parse error'')\<rparr>"

definition noAliasing :: Aliasing where
  "noAliasing = \<lparr>sameProtocol = False, sameTxnAtomicity = False\<rparr>"

definition samePointers :: Aliasing where
  "samePointers = \<lparr>sameProtocol = True, sameTxnAtomicity = True\<rparr>"

definition kafkaOpenStr :: string where
  "kafkaOpenStr = ''kafka://127.0.0.1:9092/topic?protocol=open''"

definition s3URI :: URL where
  "s3URI = uriOf ''s3'' []"

definition csvConfig :: "int option \<Rightarrow> SinkConfig" where
  "csvConfig w = baseConfig\<lparr>Protocol := Some ''csv'', FileIndexWidth := w\<rparr>"

section \<open>Properties of the table sink\<close>

subsection \<open>Binary search on a buffer ordered by commit timestamp\<close>

lemma SearchLoop_stop: "\<not> i < j \<Longrightarrow> SearchLoop f i j = i"
  by (subst SearchLoop.simps) simp

lemma SearchLoop_right:
  "i < j \<Longrightarrow> \<not> f ((i + j) div 2) \<Longrightarrow> SearchLoop f i j = SearchLoop f ((i + j) div 2 + 1) j"
  by (subst SearchLoop.simps) (simp add: Let_def)

lemma SearchLoop_left:
  "i < j \<Longrightarrow> f ((i + j) div 2) \<Longrightarrow> SearchLoop f i j = SearchLoop f i ((i + j) div 2)"
  by (subst SearchLoop.simps) (simp add: Let_def)

lemma SearchLoop_spec:
  assumes "\<And>a b. a \<le> b \<Longrightarrow> b < n \<Longrightarrow> f a \<Longrightarrow> f b"
    and "i \<le> j" and "j \<le> n"
    and "\<And>k. k < i \<Longrightarrow> \<not> f k"
    and "\<And>k. j \<le> k \<Longrightarrow> k < n \<Longrightarrow> f k"
  shows "search_post n f (SearchLoop f i j)"
  using assms
proof (induction "j - i" arbitrary: i j rule: less_induct)
  case less
  show ?case
  proof (cases "i < j")
    case False
    with less.prems have ij: "i = j" by simp
    have eq: "SearchLoop f i j = i" using False by (rule SearchLoop_stop)
    show ?thesis unfolding eq search_post_def using ij less.prems(3,4,5) by auto
  next
    case True
    let ?h = "(i + j) div 2"
    have hb: "i \<le> ?h" "?h < j" using True by simp_all
    show ?thesis
    proof (cases "f ?h")
      case fh: True
      have eq: "SearchLoop f i j = SearchLoop f i ?h"
        using True fh by (rule SearchLoop_left)
      have "search_post n f (SearchLoop f i ?h)"
      proof (rule less.hyps)
        show "?h - i < j - i" using hb by simp
        show "\<And>a b. a \<le> b \<Longrightarrow> b < n \<Longrightarrow> f a \<Longrightarrow> f b" by (rule less.prems(1))
        show "i \<le> ?h" by (rule hb)
        show "?h \<le> n" using hb less.prems(3) by simp
        show "\<And>k. k < i \<Longrightarrow> \<not> f k" by (rule less.prems(4))
        show "\<And>k. ?h \<le> k \<Longrightarrow> k < n \<Longrightarrow> f k"
          using fh less.prems(1) by blast
      qed
      with eq show ?thesis by simp
    next
      case nfh: False
      have eq: "SearchLoop f i j = SearchLoop f (?h + 1) j"
        using True nfh by (rule SearchLoop_right)
      have nf: "\<not> f k" if "k < ?h + 1" for k
      proof
        assume "f k"
        moreover have "k \<le> ?h" using that by simp
        moreover have "?h < n" using hb less.prems(3) by simp
        ultimately have "f ?h" using less.prems(1) by blast
        with nfh show False by simp
      qed
      have "search_post n f (SearchLoop f (?h + 1) j)"
      proof (rule less.hyps)
        show "j - (?h + 1) < j - i" using hb by simp
        show "\<And>a b. a \<le> b \<Longrightarrow> b < n \<Longrightarrow> f a \<Longrightarrow> f b" by (rule less.prems(1))
        show "?h + 1 \<le> j" using hb by simp
        show "j \<le> n" by (rule less.prems(3))
        show "\<And>k. k < ?h + 1 \<Longrightarrow> \<not> f k" by (rule nf)
        show "\<And>k. j \<le> k \<Longrightarrow> k < n \<Longrightarrow> f k" by (rule less.prems(5))
      qed
      with eq show ?thesis by simp
    qed
  qed
qed

lemma above_mono_sorted:
  assumes "sorted (map g xs)" "a \<le> b" "b < length xs" "c < g (xs ! a)"
  shows "c < g (xs ! b)"
proof -
  have "map g xs ! a \<le> map g xs ! b"
    using assms(1,2) by (rule sorted_nth_mono) (simp add: assms(3))
  then have "g (xs ! a) \<le> g (xs ! b)" using assms(2,3) by simp
  with assms(4) show "c < g (xs ! b)" by (rule less_le_trans)
qed

lemma SearchLoop_sorted:
  assumes "sorted (map g xs)"
  shows "search_post (length xs) (\<lambda>i. c < g (xs ! i)) (SearchLoop (\<lambda>i. c < g (xs ! i)) 0 (length xs))"
proof (rule SearchLoop_spec)
  show "\<And>a b. a \<le> b \<Longrightarrow> b < length xs \<Longrightarrow> c < g (xs ! a) \<Longrightarrow> c < g (xs ! b)"
    using assms by (rule above_mono_sorted)
qed simp_all

lemma Search_sorted:
  assumes "sorted (map g xs)"
  shows "Search (length xs) (\<lambda>i. c < g (xs ! i)) = length (takeWhile (\<lambda>x. g x \<le> c) xs)"
proof -
  define r where "r = SearchLoop (\<lambda>i. c < g (xs ! i)) 0 (length xs)"
  have "search_post (length xs) (\<lambda>i. c < g (xs ! i)) r"
    unfolding r_def using assms by (rule SearchLoop_sorted)
  then have r1: "r \<le> length xs"
    and r2: "\<And>k. k < r \<Longrightarrow> \<not> c < g (xs ! k)"
    and r3: "\<And>k. r \<le> k \<Longrightarrow> k < length xs \<Longrightarrow> c < g (xs ! k)"
    unfolding search_post_def by blast+
  have "takeWhile (\<lambda>x. g x \<le> c) xs = take r xs"
  proof (rule takeWhile_eq_take_P_nth)
    fix i assume "i < r"
    then show "g (xs ! i) \<le> c" using r2 [of i] by (simp add: not_less)
  next
    assume "r < length xs"
    then show "\<not> g (xs ! r) \<le> c" using r3 [of r] by (simp add: not_le)
  qed
  then have "length (takeWhile (\<lambda>x. g x \<le> c) xs) = r" using r1 by simp
  then show ?thesis by (simp add: Search_def r_def)
qed

subsection \<open>The loop that wraps the drained events\<close>

lemma upt_Suc_add: "[n ..< Suc (n + k)] = n # [Suc n ..< Suc (n + k)]"
  by (rule upt_conv_Cons) simp

lemma wrapped_Nil [simp]: "wrapped n [] = []"
  by (simp add: wrapped_def)

lemma wrapped_Cons: "wrapped n (ev # evs) = \<lparr>Event = ev, Callback = n\<rparr> # wrapped (Suc n) evs"
  by (simp add: wrapped_def upt_Suc_add del: upt_Suc)

lemma map_Event_wrapped [simp]: "map Event (wrapped n evs) = evs"
  by (induction evs arbitrary: n) (simp_all add: wrapped_Cons)

lemma map_Callback_wrapped [simp]: "map Callback (wrapped n evs) = [n ..< n + length evs]"
  by (induction evs arbitrary: n) (simp_all add: wrapped_Cons upt_Suc_add del: upt_Suc)

lemma addEvents_0 [simp]: "addEvents 0 t = t"
  by (simp add: addEvents_def)

lemma addEvents_Suc: "addEvents (Suc k) t = addEvents k (snd (addEvent t))"
  by (simp add: addEvents_def addEvent_def upt_Suc_add del: upt_Suc)

lemma wrapEvents_eq:
  "wrapEvents evs (ces, e) =
     (ces @ wrapped (nextEventID (progressTracker e)) evs,
      e\<lparr>progressTracker := addEvents (length evs) (progressTracker e),
        calls := calls e @ map CallAddEvent
          [nextEventID (progressTracker e) ..< nextEventID (progressTracker e) + length evs]\<rparr>)"
proof (induction evs arbitrary: ces e)
  case Nil
  show ?case by simp
next
  case (Cons ev evs)
  show ?case
    by (simp add: Cons.IH wrapped_Cons addEvents_Suc split_def Let_def upt_Suc_add addEvent_def
          del: upt_Suc)
qed

lemma length_wrapped [simp]: "length (wrapped n evs) = length evs"
  by (simp add: wrapped_def)

lemma dropWhile_sorted_above:
  "sorted (map g xs) \<Longrightarrow> x \<in> set (dropWhile (\<lambda>x. g x \<le> c) xs) \<Longrightarrow> c < g x"
  by (induction xs) (auto split: if_splits simp: not_le intro: less_le_trans)

subsection \<open>Advancing the resolved timestamp\<close>

lemma markAndWrite_eq:
  "markAndWrite ge r batch e =
     (map_option SinkInternalError (WriteEvents (backendSink e) batch),
      e\<lparr>progressTracker := addResolvedTs ge r (progressTracker e),
        calls := calls e @ [CallAddResolvedTs r, CallWriteEvents batch]\<rparr>)"
  by (simp add: markAndWrite_def Let_def split: option.splits)

lemma UpdateResolvedTs_sorted_eq:
  assumes "sorted (map GetCommitTs (eventBuffer e))"
    and "\<not> ge (maxResolvedTs e) r"
  shows "UpdateResolvedTs ge r e =
     markAndWrite ge r
       (wrapped (nextEventID (progressTracker e))
          (takeWhile (\<lambda>ev. GetCommitTs ev \<le> Ts r) (eventBuffer e)))
       (e\<lparr>maxResolvedTs := r,
          eventBuffer := dropWhile (\<lambda>ev. GetCommitTs ev \<le> Ts r) (eventBuffer e),
          progressTracker :=
            addEvents (length (takeWhile (\<lambda>ev. GetCommitTs ev \<le> Ts r) (eventBuffer e)))
              (progressTracker e),
          calls := calls e @ map CallAddEvent
            [nextEventID (progressTracker e) ..<
             nextEventID (progressTracker e) +
               length (takeWhile (\<lambda>ev. GetCommitTs ev \<le> Ts r) (eventBuffer e))]\<rparr>)"
proof -
  let ?P = "\<lambda>ev. GetCommitTs ev \<le> Ts r"
  let ?i = "length (takeWhile ?P (eventBuffer e))"
  have i: "Search (length (eventBuffer e)) (\<lambda>i. Ts r < GetCommitTs (eventBuffer e ! i)) = ?i"
    using assms(1) by (rule Search_sorted)
  have tk: "take ?i (eventBuffer e) = takeWhile ?P (eventBuffer e)"
    by (rule takeWhile_eq_take [symmetric])
  have dr: "drop ?i (eventBuffer e) = dropWhile ?P (eventBuffer e)"
    by (rule dropWhile_eq_drop [symmetric])
  show ?thesis
  proof (cases "?i = 0")
    case True
    then have tw: "takeWhile ?P (eventBuffer e) = []" by simp
    then have dw: "dropWhile ?P (eventBuffer e) = eventBuffer e"
      using takeWhile_dropWhile_id [of ?P "eventBuffer e"] by simp
    show ?thesis
      using assms(2) by (simp add: UpdateResolvedTs_def Let_def i tw dw)
  next
    case False
    then show ?thesis
      using assms(2)
      by (simp add: UpdateResolvedTs_def Let_def i tk dr wrapEvents_eq)
  qed
qed

lemma SearchLoop_0 [simp]: "SearchLoop f 0 0 = 0"
  by (rule SearchLoop_stop) simp

lemma UpdateResolvedTs_shape:
  assumes "\<not> ge (maxResolvedTs e) r"
  shows "\<exists>batch e1. UpdateResolvedTs ge r e = markAndWrite ge r batch e1
           \<and> state e1 = state e \<and> backendSink e1 = backendSink e"
proof (cases "Search (length (eventBuffer e)) (\<lambda>i. Ts r < GetCommitTs (eventBuffer e ! i)) = 0")
  case True
  have "UpdateResolvedTs ge r e = markAndWrite ge r [] (e\<lparr>maxResolvedTs := r\<rparr>)"
    using assms True by (simp add: UpdateResolvedTs_def Let_def)
  moreover have "state (e\<lparr>maxResolvedTs := r\<rparr>) = state e"
    and "backendSink (e\<lparr>maxResolvedTs := r\<rparr>) = backendSink e" by simp_all
  ultimately show ?thesis by blast
next
  case False
  let ?i = "Search (length (eventBuffer e)) (\<lambda>i. Ts r < GetCommitTs (eventBuffer e ! i))"
  let ?e0 = "e\<lparr>maxResolvedTs := r, eventBuffer := drop ?i (eventBuffer e)\<rparr>"
  let ?w = "wrapEvents (take ?i (eventBuffer e)) ([], ?e0)"
  have "UpdateResolvedTs ge r e = markAndWrite ge r (fst ?w) (snd ?w)"
    using assms False by (simp add: UpdateResolvedTs_def Let_def split_def)
  moreover have "state (snd ?w) = state e" and "backendSink (snd ?w) = backendSink e"
    by (simp_all add: wrapEvents_eq)
  ultimately show ?thesis by blast
qed

lemma UpdateResolvedTs_state: "state (snd (UpdateResolvedTs ge r e)) = state e"
proof (cases "ge (maxResolvedTs e) r")
  case True
  then show ?thesis by (simp add: UpdateResolvedTs_def)
next
  case False
  from UpdateResolvedTs_shape [where ge = ge, OF False] obtain batch e1 where
    "UpdateResolvedTs ge r e = markAndWrite ge r batch e1" "state e1 = state e"
    by blast
  then show ?thesis by (simp add: markAndWrite_eq)
qed

subsection \<open>The lifecycle\<close>

lemma GetCheckpointTs_not_Stopping:
  "state e \<noteq> TableSinkStopping \<Longrightarrow>
   GetCheckpointTs e =
     (fst (advance (progressTracker e)), e\<lparr>progressTracker := snd (advance (progressTracker e))\<rparr>)"
  by (subst GetCheckpointTs.simps) (simp add: Load_def Let_def split_def)

lemma markAsClosed_eq:
  "markAsClosed e =
     (if state e = TableSinkStopped then (False, e)
      else (True, e\<lparr>state := TableSinkStopped,
                     progressTracker := snd (advance (progressTracker e))\<rparr>))"
  by (subst markAsClosed.simps)
     (simp add: Load_def CompareAndSwap_def Let_def split_def GetCheckpointTs_not_Stopping)

lemma GetCheckpointTs_Stopping_eq:
  "state e = TableSinkStopping \<Longrightarrow>
   GetCheckpointTs e =
     (let (closed, t) = checkClosed (Dead (backendSink e)) (progressTracker e);
          e1 = (if closed then e\<lparr>state := TableSinkStopped, progressTracker := snd (advance t)\<rparr>
                else e\<lparr>progressTracker := t\<rparr>)
      in (fst (advance (progressTracker e1)),
          e1\<lparr>progressTracker := snd (advance (progressTracker e1))\<rparr>))"
  by (subst GetCheckpointTs.simps)
     (simp add: Load_def Let_def split_def markAsClosed_eq)

lemma GetCheckpointTs_state:
  "state (snd (GetCheckpointTs e)) =
     (if state e = TableSinkStopping \<and> fst (checkClosed (Dead (backendSink e)) (progressTracker e))
      then TableSinkStopped else state e)"
  by (cases "state e = TableSinkStopping")
     (simp_all add: GetCheckpointTs_Stopping_eq GetCheckpointTs_not_Stopping Let_def split_def)

lemma GetCheckpointTs_backendSink: "backendSink (snd (GetCheckpointTs e)) = backendSink e"
  by (cases "state e = TableSinkStopping")
     (simp_all add: GetCheckpointTs_Stopping_eq GetCheckpointTs_not_Stopping Let_def split_def)

lemma freezeLoop_eq:
  "freezeLoop e =
     (if state e = TableSinkSinking then snd (GetCheckpointTs (e\<lparr>state := TableSinkStopping\<rparr>))
      else e)"
  by (subst freezeLoop.simps, cases "state e")
     (simp_all add: Load_def CompareAndSwap_def Let_def split_def)

lemma freeze_state:
  "state_rank (state e) \<le> state_rank (state (freeze e)) \<and> state (freeze e) \<noteq> TableSinkSinking"
  by (cases "state e") (simp_all add: freeze_def freezeLoop_eq GetCheckpointTs_state)

lemma freeze_backendSink: "backendSink (freeze e) = backendSink e"
  by (simp add: freeze_def freezeLoop_eq GetCheckpointTs_backendSink)

lemma markAsClosed_state: "state (snd (markAsClosed e)) = TableSinkStopped"
  by (simp add: markAsClosed_eq)

lemma rank_Stopped [simp]: "state_rank s \<le> 2"
  by (cases s) simp_all

lemma Close_state: "Close others e = Some e' \<Longrightarrow> state e' = TableSinkStopped"
  by (auto simp: Close_def Let_def markAsClosed_state split: option.splits)

lemma AsyncClose_state:
  "state_rank (state e) \<le> state_rank (state (snd (AsyncClose e)))"
  using freeze_state [of e]
  by (simp add: AsyncClose_def Let_def split_def markAsClosed_state)

lemma step_rank:
  "step ge op e = Some e' \<Longrightarrow> state_rank (state e) \<le> state_rank (state e')"
proof (cases op)
  case (OpClose others)
  then show "step ge op e = Some e' \<Longrightarrow> ?thesis"
    using Close_state [of others e e'] by simp
qed (auto simp: AppendRowChangedEvents_def UpdateResolvedTs_state GetCheckpointTs_state
      AsyncClose_state freeze_state markAsClosed_state)

lemma run_rank:
  "run ge ops e = Some e' \<Longrightarrow> state_rank (state e) \<le> state_rank (state e')"
proof (induction ops arbitrary: e)
  case Nil
  then show ?case by simp
next
  case (Cons op ops)
  from Cons.prems obtain e1 where s: "step ge op e = Some e1" and r: "run ge ops e1 = Some e'"
    by (auto split: option.splits)
  from step_rank [OF s] Cons.IH [OF r] show ?case by simp
qed

lemma advance_pendingQ_Nil: "pendingQ t = [] \<Longrightarrow> pendingQ (snd (advance t)) = []"
  by (simp add: advance_def)

lemma waitClosed_Some_closed:
  "waitClosed dead others t = Some t' \<Longrightarrow> dead \<or> pendingQ t' = []"
  by (induction others arbitrary: t) (auto simp: checkClosed_def split: if_splits)

lemma waitClosed_closed:
  "dead \<or> pendingQ t = [] \<Longrightarrow> waitClosed dead others t = Some (snd (checkClosed dead t))"
  by (cases others) (auto simp: checkClosed_def)

lemma markAsClosed_backendSink: "backendSink (snd (markAsClosed e)) = backendSink e"
  by (simp add: markAsClosed_eq)

lemma markAsClosed_pendingQ_Nil:
  "pendingQ (progressTracker e) = [] \<Longrightarrow> pendingQ (progressTracker (snd (markAsClosed e))) = []"
  by (simp add: markAsClosed_eq advance_pendingQ_Nil)

lemma Close_closed:
  assumes "Close others e = Some e1"
  shows "state e1 = TableSinkStopped
         \<and> (Dead (backendSink e1) \<or> pendingQ (progressTracker e1) = [])"
proof -
  from assms obtain t where
    w: "waitClosed (Dead (backendSink (freeze e))) others (progressTracker (freeze e)) = Some t"
    and e1: "e1 = snd (markAsClosed ((freeze e)\<lparr>progressTracker := t\<rparr>))"
    by (auto simp: Close_def Let_def split: option.splits)
  from waitClosed_Some_closed [OF w] have "Dead (backendSink (freeze e)) \<or> pendingQ t = []" .
  then have "Dead (backendSink e1) \<or> pendingQ (progressTracker e1) = []"
    by (auto simp: e1 markAsClosed_backendSink markAsClosed_pendingQ_Nil)
  then show ?thesis by (simp add: e1 markAsClosed_state)
qed

lemma Close_again:
  assumes "state e1 = TableSinkStopped"
    and "Dead (backendSink e1) \<or> pendingQ (progressTracker e1) = []"
  shows "\<exists>e2. Close others e1 = Some e2 \<and> state e2 = TableSinkStopped"
proof -
  have f: "freeze e1 = e1\<lparr>progressTracker := freezeProcess (progressTracker e1)\<rparr>"
    using assms(1) by (simp add: freeze_def freezeLoop_eq)
  have "Dead (backendSink (freeze e1)) \<or> pendingQ (progressTracker (freeze e1)) = []"
    using assms(2) by (simp add: f freezeProcess_def)
  from waitClosed_closed [OF this, of others] assms(1)
  show ?thesis by (simp add: Close_def Let_def markAsClosed_eq f)
qed

text \<open>
  Claim C1. Let the buffer be non-decreasing in commit timestamp and let \<open>r\<close> be
  strictly greater than \<open>maxResolvedTs\<close> (the comparison does not say that
  \<open>maxResolvedTs\<close> is equal or greater). Then \<open>UpdateResolvedTs r\<close> writes a batch
  whose events are a prefix of the buffer, all with commit timestamp at most \<open>Ts r\<close>,
  and keeps the rest, all above \<open>Ts r\<close>. Every event of the batch carries its own
  handle, the identifiers that \<open>addEvent\<close> issued in order. The calls are: one
  \<open>addEvent\<close> for each drained event, then \<open>addResolvedTs r\<close>, then, last,
  \<open>WriteEvents\<close> with the batch; the tracker is the one \<open>addResolvedTs\<close> returned,
  and unless it is frozen or has seen a marker as great as \<open>r\<close>, its queue now ends
  with the events of the batch and then the marker.
  The result is the backend's answer, wrapped. The batch is empty exactly when no event
  of the buffer is at or below \<open>Ts r\<close>, and the marker and the write are issued all the
  same.
\<close>

theorem UpdateResolvedTs_advance:
  assumes "sorted (map GetCommitTs (eventBuffer e))"
    and "\<not> EqualOrGreater (maxResolvedTs e) r"
  shows "\<exists>batch e'.
      UpdateResolvedTs EqualOrGreater r e =
        (map_option SinkInternalError (WriteEvents (backendSink e) batch), e')
    \<and> maxResolvedTs e' = r
    \<and> eventBuffer e = map Event batch @ eventBuffer e'
    \<and> (\<forall>c \<in> set batch. GetCommitTs (Event c) \<le> Ts r)
    \<and> (\<forall>ev \<in> set (eventBuffer e'). Ts r < GetCommitTs ev)
    \<and> map Callback batch =
        [nextEventID (progressTracker e) ..< nextEventID (progressTracker e) + length batch]
    \<and> progressTracker e' =
        addResolvedTs EqualOrGreater r (addEvents (length batch) (progressTracker e))
    \<and> calls e' =
        calls e @ map (\<lambda>c. CallAddEvent (Callback c)) batch
                @ [CallAddResolvedTs r, CallWriteEvents batch]
    \<and> (batch = [] \<longleftrightarrow> (\<forall>ev \<in> set (eventBuffer e). Ts r < GetCommitTs ev))
    \<and> (\<not> frozen (progressTracker e)
         \<and> (\<forall>l. lastResolved (progressTracker e) = Some l \<longrightarrow> \<not> EqualOrGreater l r)
       \<longrightarrow> pendingQ (progressTracker e') =
             pendingQ (progressTracker e) @ map (\<lambda>c. EventPending (Callback c)) batch
               @ [ResolvedMarker r])"
proof -
  let ?P = "\<lambda>ev. GetCommitTs ev \<le> Ts r"
  let ?n = "nextEventID (progressTracker e)"
  let ?drained = "takeWhile ?P (eventBuffer e)"
  let ?batch = "wrapped ?n ?drained"
  let ?e1 = "e\<lparr>maxResolvedTs := r,
          eventBuffer := dropWhile ?P (eventBuffer e),
          progressTracker := addEvents (length ?drained) (progressTracker e),
          calls := calls e @ map CallAddEvent [?n ..< ?n + length ?drained]\<rparr>"
  let ?e' = "?e1\<lparr>progressTracker := addResolvedTs EqualOrGreater r (progressTracker ?e1),
        calls := calls ?e1 @ [CallAddResolvedTs r, CallWriteEvents ?batch]\<rparr>"
  have c1: "UpdateResolvedTs EqualOrGreater r e =
        (map_option SinkInternalError (WriteEvents (backendSink e) ?batch), ?e')"
    by (simp add: UpdateResolvedTs_sorted_eq [where ge = EqualOrGreater, OF assms] markAndWrite_eq)
  have c2: "maxResolvedTs ?e' = r" by simp
  have c3: "eventBuffer e = map Event ?batch @ eventBuffer ?e'" by simp
  have c4: "\<forall>c \<in> set ?batch. GetCommitTs (Event c) \<le> Ts r"
  proof
    fix c assume "c \<in> set ?batch"
    then have "Event c \<in> Event ` set ?batch" by (rule imageI)
    then have "Event c \<in> set (map Event ?batch)" by (simp only: set_map)
    then have "Event c \<in> set ?drained" by (simp only: map_Event_wrapped)
    then show "GetCommitTs (Event c) \<le> Ts r" by (rule set_takeWhileD [THEN conjunct2])
  qed
  have c5: "\<forall>ev \<in> set (eventBuffer ?e'). Ts r < GetCommitTs ev"
    using dropWhile_sorted_above [OF assms(1)] by simp
  have c6: "map Callback ?batch = [?n ..< ?n + length ?batch]" by simp
  have c7: "progressTracker ?e' =
      addResolvedTs EqualOrGreater r (addEvents (length ?batch) (progressTracker e))"
    by simp
  have m: "map (\<lambda>c. CallAddEvent (Callback c)) ?batch =
      map CallAddEvent [?n ..< ?n + length ?drained]"
    using map_Callback_wrapped [of ?n ?drained, THEN arg_cong, of "map CallAddEvent"]
    by (simp only: map_map comp_def)
  have c8: "calls ?e' = calls e @ map (\<lambda>c. CallAddEvent (Callback c)) ?batch
                @ [CallAddResolvedTs r, CallWriteEvents ?batch]"
    by (simp add: m)
  have "?batch = [] \<longleftrightarrow> ?drained = []"
    using length_wrapped [of ?n ?drained] by (simp only: length_0_conv [symmetric])
  also have "\<dots> \<longleftrightarrow> (\<forall>ev \<in> set (eventBuffer e). Ts r < GetCommitTs ev)"
  proof
    assume "?drained = []"
    then have "dropWhile ?P (eventBuffer e) = eventBuffer e"
      using takeWhile_dropWhile_id [of ?P "eventBuffer e"] by simp
    with c5 show "\<forall>ev \<in> set (eventBuffer e). Ts r < GetCommitTs ev" by simp
  next
    assume "\<forall>ev \<in> set (eventBuffer e). Ts r < GetCommitTs ev"
    then show "?drained = []" by (cases "eventBuffer e") (auto simp: not_le)
  qed
  finally have c9: "?batch = [] \<longleftrightarrow> (\<forall>ev \<in> set (eventBuffer e). Ts r < GetCommitTs ev)" .
  have q: "map (\<lambda>c. EventPending (Callback c)) ?batch =
      map EventPending [?n ..< ?n + length ?drained]"
    using map_Callback_wrapped [of ?n ?drained, THEN arg_cong, of "map EventPending"]
    by (simp only: map_map comp_def)
  have c10: "\<not> frozen (progressTracker e)
         \<and> (\<forall>l. lastResolved (progressTracker e) = Some l \<longrightarrow> \<not> EqualOrGreater l r)
       \<longrightarrow> pendingQ (progressTracker ?e') =
             pendingQ (progressTracker e) @ map (\<lambda>c. EventPending (Callback c)) ?batch
               @ [ResolvedMarker r]"
    unfolding q by (cases "lastResolved (progressTracker e)")
      (simp_all add: addResolvedTs_def addEvents_def)
  from c1 c2 c3 c4 c5 c6 c7 c8 c9 c10 show ?thesis by blast
qed

text \<open>
  The first scenario of the spec: events at 3, 5 and 7, advance to 6.
\<close>

theorem UpdateResolvedTs_advance_witness:
  "sorted (map GetCommitTs (eventBuffer sink357))
   \<and> \<not> tsOrder (maxResolvedTs sink357) (resolved 6)
   \<and> (\<exists>batch e'.
      UpdateResolvedTs tsOrder (resolved 6) sink357 =
        (map_option SinkInternalError (WriteEvents (backendSink sink357) batch), e')
    \<and> maxResolvedTs e' = resolved 6
    \<and> eventBuffer sink357 = map Event batch @ eventBuffer e'
    \<and> (\<forall>c \<in> set batch. GetCommitTs (Event c) \<le> Ts (resolved 6))
    \<and> (\<forall>ev \<in> set (eventBuffer e'). Ts (resolved 6) < GetCommitTs ev)
    \<and> map Callback batch =
        [nextEventID (progressTracker sink357) ..<
         nextEventID (progressTracker sink357) + length batch]
    \<and> progressTracker e' =
        addResolvedTs tsOrder (resolved 6) (addEvents (length batch) (progressTracker sink357))
    \<and> calls e' =
        calls sink357 @ map (\<lambda>c. CallAddEvent (Callback c)) batch
                @ [CallAddResolvedTs (resolved 6), CallWriteEvents batch]
    \<and> (batch = [] \<longleftrightarrow> (\<forall>ev \<in> set (eventBuffer sink357). Ts (resolved 6) < GetCommitTs ev))
    \<and> pendingQ (progressTracker e') =
          pendingQ (progressTracker sink357) @ map (\<lambda>c. EventPending (Callback c)) batch
            @ [ResolvedMarker (resolved 6)])"
proof -
  have h1: "sorted (map GetCommitTs (eventBuffer sink357))"
    by (simp add: sink357_def exampleSink_def)
  have h2: "\<not> tsOrder (maxResolvedTs sink357) (resolved 6)"
    by (simp add: sink357_def exampleSink_def tsOrder_def resolved_def)
  have h3: "\<not> frozen (progressTracker sink357)
      \<and> (\<forall>l. lastResolved (progressTracker sink357) = Some l \<longrightarrow> \<not> tsOrder l (resolved 6))"
    by (simp add: sink357_def exampleSink_def emptyTracker_def)
  from UpdateResolvedTs_advance [where EqualOrGreater = tsOrder, OF h1 h2] h3
  have "\<exists>batch e'.
      UpdateResolvedTs tsOrder (resolved 6) sink357 =
        (map_option SinkInternalError (WriteEvents (backendSink sink357) batch), e')
    \<and> maxResolvedTs e' = resolved 6
    \<and> eventBuffer sink357 = map Event batch @ eventBuffer e'
    \<and> (\<forall>c \<in> set batch. GetCommitTs (Event c) \<le> Ts (resolved 6))
    \<and> (\<forall>ev \<in> set (eventBuffer e'). Ts (resolved 6) < GetCommitTs ev)
    \<and> map Callback batch =
        [nextEventID (progressTracker sink357) ..<
         nextEventID (progressTracker sink357) + length batch]
    \<and> progressTracker e' =
        addResolvedTs tsOrder (resolved 6) (addEvents (length batch) (progressTracker sink357))
    \<and> calls e' =
        calls sink357 @ map (\<lambda>c. CallAddEvent (Callback c)) batch
                @ [CallAddResolvedTs (resolved 6), CallWriteEvents batch]
    \<and> (batch = [] \<longleftrightarrow> (\<forall>ev \<in> set (eventBuffer sink357). Ts (resolved 6) < GetCommitTs ev))
    \<and> pendingQ (progressTracker e') =
          pendingQ (progressTracker sink357) @ map (\<lambda>c. EventPending (Callback c)) batch
            @ [ResolvedMarker (resolved 6)]"
    by blast
  with h1 h2 show ?thesis by (intro conjI)
qed

text \<open>
  Claim C2. When \<open>maxResolvedTs\<close> is equal to or greater than \<open>r\<close>, the call returns
  \<open>nil\<close> and the sink is the one it was: the resolved timestamp, the buffer, the
  tracker and the log of calls (no enqueue, no write) are all unchanged.
\<close>

theorem UpdateResolvedTs_noop:
  "EqualOrGreater (maxResolvedTs e) r \<Longrightarrow> UpdateResolvedTs EqualOrGreater r e = (None, e)"
  by (simp add: UpdateResolvedTs_def)

text \<open>
  The fourth scenario of the spec: advance to 50, then to 30.
\<close>

theorem UpdateResolvedTs_noop_witness:
  "tsOrder (maxResolvedTs sinkAt50) (resolved 30)
   \<and> UpdateResolvedTs tsOrder (resolved 30) sinkAt50 = (None, sinkAt50)
   \<and> maxResolvedTs sinkAt50 = resolved 50"
proof -
  have m: "maxResolvedTs sinkAt50 = resolved 50"
    by (simp add: sinkAt50_def UpdateResolvedTs_def exampleSink_def tsOrder_def resolved_def
        Search_def markAndWrite_def Let_def)
  have h: "tsOrder (maxResolvedTs sinkAt50) (resolved 30)"
    by (simp add: m tsOrder_def resolved_def)
  from h m UpdateResolvedTs_noop [where EqualOrGreater = tsOrder, OF h] show ?thesis by simp
qed

text \<open>
  Claim C3, as amended. \<open>AppendRowChangedEvents\<close> does not read the state: in every
  state, also Stopping and Stopped, it hands the rows to the appender and stores the
  buffer the appender returns, counts the rows, and leaves the state as it is. A state
  set before the call can as well be set after it.
\<close>

theorem AppendRowChangedEvents_any_state:
  "eventBuffer (AppendRowChangedEvents rows e) = eventAppender e (eventBuffer e) rows
   \<and> metricsTableSinkTotalRows (AppendRowChangedEvents rows e) =
       metricsTableSinkTotalRows e + length rows
   \<and> state (AppendRowChangedEvents rows e) = state e
   \<and> AppendRowChangedEvents rows (e\<lparr>state := st\<rparr>) = (AppendRowChangedEvents rows e)\<lparr>state := st\<rparr>"
  by (simp add: AppendRowChangedEvents_def)

text \<open>
  Claim C3 as stated fails: a stopped sink with the single-row appender and an empty
  buffer takes the row it is given.
\<close>

theorem AppendRowChangedEvents_stopped_counterexample:
  "state stoppedSink = TableSinkStopped
   \<and> eventBuffer stoppedSink = []
   \<and> eventBuffer (AppendRowChangedEvents [TableEvent 9 ()] stoppedSink) = [TableEvent 9 ()]"
  by (simp add: stoppedSink_def exampleSink_def AppendRowChangedEvents_def
      RowChangeEventAppender_def)

text \<open>
  Claim C4. Along every sequence of calls that returns (\<open>freeze\<close>, \<open>markAsClosed\<close>,
  \<open>Close\<close>, \<open>AsyncClose\<close> and \<open>GetCheckpointTs\<close>, and also appends, advances,
  acknowledgements and the death of the backend) the state never moves back in the order
  Sinking, Stopping, Stopped: from Stopping it does not return to Sinking, and from
  Stopped it stays Stopped. A \<open>Close\<close> that returns leaves the sink Stopped, and every
  further \<open>Close\<close> on that sink returns and leaves it Stopped.
\<close>

theorem state_moves_forward:
  "(run EqualOrGreater ops e = Some e' \<longrightarrow>
      state_rank (state e) \<le> state_rank (state e')
      \<and> (state e = TableSinkStopping \<longrightarrow> state e' \<noteq> TableSinkSinking)
      \<and> (state e = TableSinkStopped \<longrightarrow> state e' = TableSinkStopped))
   \<and> (Close others e = Some e1 \<longrightarrow>
      state e1 = TableSinkStopped
      \<and> (\<exists>e2. Close others' e1 = Some e2 \<and> state e2 = TableSinkStopped))"
proof (intro conjI impI)
  assume r: "run EqualOrGreater ops e = Some e'"
  from run_rank [OF r] show "state_rank (state e) \<le> state_rank (state e')" .
  then show "state e = TableSinkStopping \<Longrightarrow> state e' \<noteq> TableSinkSinking"
    by (cases "state e'") simp_all
  from run_rank [OF r] show "state e = TableSinkStopped \<Longrightarrow> state e' = TableSinkStopped"
    by (cases "state e'") simp_all
next
  assume c: "Close others e = Some e1"
  from Close_closed [OF c] show "state e1 = TableSinkStopped" by simp
  from Close_closed [OF c] Close_again [of e1 others']
  show "\<exists>e2. Close others' e1 = Some e2 \<and> state e2 = TableSinkStopped" by blast
qed

text \<open>
  An event at 3 is written and not yet acknowledged. From Sinking: the scheduler
  freezes the sink, polls, the backend dies, and the sink is closed. From Stopping, the
  frozen sink: a poll, an append, an advance and an acknowledgement. From Stopped, the
  closed sink: every call once more. And \<open>Close\<close> twice.
\<close>

theorem state_moves_forward_witness:
  "(\<exists>e'. run tsOrder [OpFreeze, OpGetCheckpointTs, OpBackendDies, OpAsyncClose, OpClose []]
           pendingSink = Some e'
        \<and> state_rank (state pendingSink) \<le> state_rank (state e'))
   \<and> state (freeze pendingSink) = TableSinkStopping
   \<and> (\<exists>e'. run tsOrder [OpGetCheckpointTs, OpAppend [TableEvent 8 ()],
                        OpUpdateResolvedTs (resolved 9), OpBackendAck 0]
           (freeze pendingSink) = Some e'
        \<and> state e' \<noteq> TableSinkSinking)
   \<and> (\<exists>e1. Close [AckFired 0, AdvanceCalled] pendingSink = Some e1
        \<and> state e1 = TableSinkStopped
        \<and> (\<exists>e2. Close [] e1 = Some e2 \<and> state e2 = TableSinkStopped)
        \<and> (\<exists>e'. run tsOrder [OpFreeze, OpGetCheckpointTs, OpAsyncClose, OpMarkAsClosed,
                             OpAppend [TableEvent 8 ()], OpUpdateResolvedTs (resolved 9)]
                e1 = Some e'
             \<and> state e' = TableSinkStopped))"
proof -
  let ?ops1 = "[OpFreeze, OpGetCheckpointTs, OpBackendDies, OpAsyncClose, OpClose []]
                 :: unit TableEvent SinkOp list"
  let ?ops2 = "[OpGetCheckpointTs, OpAppend [TableEvent 8 ()], OpUpdateResolvedTs (resolved 9),
                OpBackendAck 0] :: unit TableEvent SinkOp list"
  let ?ops3 = "[OpFreeze, OpGetCheckpointTs, OpAsyncClose, OpMarkAsClosed,
                OpAppend [TableEvent 8 ()], OpUpdateResolvedTs (resolved 9)]
                 :: unit TableEvent SinkOp list"
  let ?others = "[AckFired 0, AdvanceCalled]"
  have "case run tsOrder ?ops1 pendingSink of None \<Rightarrow> False | Some e' \<Rightarrow> True"
    by code_simp
  then obtain a where r1: "run tsOrder ?ops1 pendingSink = Some a"
    by (auto split: option.splits)
  have s2: "state (freeze pendingSink) = TableSinkStopping"
    by code_simp
  have "case run tsOrder ?ops2 (freeze pendingSink) of None \<Rightarrow> False | Some e' \<Rightarrow> True"
    by code_simp
  then obtain b where r2: "run tsOrder ?ops2 (freeze pendingSink) = Some b"
    by (auto split: option.splits)
  have "case Close ?others pendingSink of None \<Rightarrow> False | Some e1 \<Rightarrow> True"
    by code_simp
  then obtain e1 where c: "Close ?others pendingSink = Some e1"
    by (auto split: option.splits)
  have "case Close ?others pendingSink of None \<Rightarrow> False
        | Some e1 \<Rightarrow> (case run tsOrder ?ops3 e1 of None \<Rightarrow> False | Some e' \<Rightarrow> True)"
    by code_simp
  with c obtain d where r3: "run tsOrder ?ops3 e1 = Some d"
    by (auto split: option.splits)
  from state_moves_forward [where EqualOrGreater = tsOrder and ops = ?ops1 and e = pendingSink
      and e' = a and others = ?others and ?e1.0 = e1 and others' = "[]"] r1 c
  have w1: "state_rank (state pendingSink) \<le> state_rank (state a)"
    and w4: "state e1 = TableSinkStopped"
    and w5: "\<exists>e2. Close [] e1 = Some e2 \<and> state e2 = TableSinkStopped"
    by blast+
  from state_moves_forward [where EqualOrGreater = tsOrder and ops = ?ops2
      and e = "freeze pendingSink" and e' = b] r2 s2
  have w2: "state b \<noteq> TableSinkSinking" by blast
  from state_moves_forward [where EqualOrGreater = tsOrder and ops = ?ops3 and e = e1 and e' = d]
    r3 w4
  have w3: "state d = TableSinkStopped" by blast
  from r1 w1 s2 r2 w2 c w4 w5 r3 w3 show ?thesis by blast
qed

text \<open>
  Claim C5. When \<open>UpdateResolvedTs\<close> goes past its guard and the backend answers the
  write (the last call on the log, with the batch it was given) with an error, the
  call returns that error wrapped as \<open>SinkInternalError\<close>, and the state of the sink is
  what it was before the call.
\<close>

theorem UpdateResolvedTs_backend_error:
  assumes "\<not> EqualOrGreater (maxResolvedTs e) r"
    and "UpdateResolvedTs EqualOrGreater r e = (res, e')"
    and "last (calls e') = CallWriteEvents batch"
    and "WriteEvents (backendSink e) batch = Some err"
  shows "res = Some (SinkInternalError err) \<and> state e' = state e"
proof -
  from UpdateResolvedTs_shape [where ge = EqualOrGreater, OF assms(1)] obtain b e1 where
    u: "UpdateResolvedTs EqualOrGreater r e = markAndWrite EqualOrGreater r b e1"
    and s: "state e1 = state e" and k: "backendSink e1 = backendSink e"
    by blast
  from u assms(2) have
    res: "res = map_option SinkInternalError (WriteEvents (backendSink e1) b)"
    and e': "e' = e1\<lparr>progressTracker := addResolvedTs EqualOrGreater r (progressTracker e1),
        calls := calls e1 @ [CallAddResolvedTs r, CallWriteEvents b]\<rparr>"
    by (simp_all add: markAndWrite_eq)
  from e' assms(3) have "b = batch" by simp
  with res k assms(4) e' s show ?thesis by simp
qed

theorem UpdateResolvedTs_backend_error_witness:
  "\<not> tsOrder (maxResolvedTs failingSink) (resolved 6)
   \<and> last (calls (snd (UpdateResolvedTs tsOrder (resolved 6) failingSink))) =
       CallWriteEvents [\<lparr>Event = TableEvent 3 (), Callback = 0\<rparr>]
   \<and> WriteEvents (backendSink failingSink) [\<lparr>Event = TableEvent 3 (), Callback = 0\<rparr>] =
       Some ''backend is gone''
   \<and> fst (UpdateResolvedTs tsOrder (resolved 6) failingSink) =
       Some (SinkInternalError ''backend is gone'')
   \<and> state (snd (UpdateResolvedTs tsOrder (resolved 6) failingSink)) = TableSinkSinking"
proof -
  let ?u = "UpdateResolvedTs tsOrder (resolved 6) failingSink"
  let ?b = "[\<lparr>Event = TableEvent 3 (), Callback = 0\<rparr>] :: unit CallbackableEvent list"
  have h1: "\<not> tsOrder (maxResolvedTs failingSink) (resolved 6)"
    by (simp add: failingSink_def exampleSink_def tsOrder_def resolved_def)
  have h2: "?u = (fst ?u, snd ?u)" by simp
  have sorted: "sorted (map GetCommitTs (eventBuffer failingSink))"
    by (simp add: failingSink_def exampleSink_def)
  have h3: "last (calls (snd ?u)) = CallWriteEvents ?b"
    by (simp add: UpdateResolvedTs_sorted_eq [where ge = tsOrder, OF sorted h1] markAndWrite_eq)
       (simp add: failingSink_def exampleSink_def resolved_def emptyTracker_def wrapped_def)
  have h4: "WriteEvents (backendSink failingSink) ?b = Some ''backend is gone''"
    by (simp add: failingSink_def exampleSink_def)
  have st: "state failingSink = TableSinkSinking"
    by (simp add: failingSink_def exampleSink_def)
  from UpdateResolvedTs_backend_error [where EqualOrGreater = tsOrder, OF h1 h2 h3 h4] h1 h3 h4 st
  show ?thesis by simp
qed

section \<open>Properties of the sink configuration\<close>

subsection \<open>Reconciliation\<close>

lemma keys_differ: "TxnAtomicityKey \<noteq> ProtocolKey"
  by (simp add: TxnAtomicityKey_def ProtocolKey_def)

lemma concat_pairs:
  "ps \<noteq> [] \<Longrightarrow> concat (map (\<lambda>(k, v). k @ ''='' @ v @ '', '') ps) = showPairs ps @ '', ''"
  by (induction ps rule: showPairs.induct) simp_all

lemma getErrMsg_showPairs:
  assumes "ps \<noteq> []"
  shows "getErrMsg ps = Inr (showPairs ps)"
  unfolding getErrMsg_def concat_pairs [OF assms] by (simp add: Let_def)

lemma collectParameters_eq:
  "collectParameters s u = (inSinkURI s u, inFile s u, uriWins s u)"
  by (simp add: collectParameters_def Let_def unknownTxnAtomicity_def AddressOf_def keys_differ
      inSinkURI_def inFile_def uriWins_def txnAtomicityDiffers_def protocolDiffers_def)

lemma length_maps: "length (inSinkURI s u) = length (inFile s u)"
  by (simp add: inSinkURI_def inFile_def)

lemma keys_maps: "map fst (inSinkURI s u) = map fst (inFile s u)"
  by (simp add: inSinkURI_def inFile_def)

lemma inSinkURI_Nil: "inSinkURI s u = [] \<longleftrightarrow> \<not> txnAtomicityDiffers s u \<and> \<not> protocolDiffers s u"
  by (simp add: inSinkURI_def)

lemma inFile_Nil: "inFile s u = [] \<longleftrightarrow> \<not> txnAtomicityDiffers s u \<and> \<not> protocolDiffers s u"
  by (simp add: inFile_def)

lemma getError_maps:
  "getError (inSinkURI s u) (inFile s u) =
     Inr (if \<not> txnAtomicityDiffers s u \<and> \<not> protocolDiffers s u then None
          else Some (Error ErrIncompatibleSinkConfig
                       [showPairs (inSinkURI s u), showPairs (inFile s u)]))"
proof (cases "\<not> txnAtomicityDiffers s u \<and> \<not> protocolDiffers s u")
  case True
  then show ?thesis by (simp add: getError_def inSinkURI_def inFile_def)
next
  case False
  then have n: "inSinkURI s u \<noteq> []" "inFile s u \<noteq> []"
    by (simp_all add: inSinkURI_Nil inFile_Nil)
  then have "length (inSinkURI s u) \<noteq> 0" by simp
  with False n show ?thesis
    by (simp add: getError_def length_maps getErrMsg_showPairs GenWithStackByArgs_def
        del: length_0_conv)
qed

lemma applyParameterBySinkURI_eq:
  "applyParameterBySinkURI s (Some u) =
     Inr (if \<not> txnAtomicityDiffers s u \<and> \<not> protocolDiffers s u then None
          else Some (Error ErrIncompatibleSinkConfig
                       [showPairs (inSinkURI s u), showPairs (inFile s u)]),
          uriWins s u)"
  by (simp add: applyParameterBySinkURI_def collectParameters_eq getError_maps)

lemma applyParameterBySinkURI_None: "applyParameterBySinkURI s None = Inr (None, s)"
  by (simp add: applyParameterBySinkURI_def)

lemma uriWins_agrees [simp]:
  "\<not> txnAtomicityDiffers (uriWins s u) u" "\<not> protocolDiffers (uriWins s u) u"
  by (simp_all add: uriWins_def txnAtomicityDiffers_def protocolDiffers_def GetOrZero_string_def)

lemma uriWins_idem [simp]: "uriWins (uriWins s u) u = uriWins s u"
  by (simp add: uriWins_def)

lemma Equal_apply_error:
  "Equal ErrIncompatibleSinkConfig
     (if \<not> txnAtomicityDiffers s u \<and> \<not> protocolDiffers s u then None
      else Some (Error ErrIncompatibleSinkConfig m))
   = (txnAtomicityDiffers s u \<or> protocolDiffers s u)"
  by simp

lemma pointersDiffer_values:
  "(same \<longrightarrow> p = q) \<Longrightarrow> p \<noteq> q \<Longrightarrow> pointersDiffer same p q"
  by (cases p; cases q) (auto simp: pointersDiffer_def)

lemma isURIParamsChanged_eq:
  "isURIParamsChanged old u = Inr (txnAtomicityDiffers old u \<or> protocolDiffers old u)"
  by (simp add: isURIParamsChanged_def applyParameterBySinkURI_eq)

lemma CheckCompatibilityWithSinkURI_eq:
  assumes "url_Parse I sinkURIStr = Inr u"
  shows "CheckCompatibilityWithSinkURI I al s old sinkURIStr =
      (if \<not> (txnAtomicityDiffers old u \<or> protocolDiffers old u)
          \<and> \<not> (pointersDiffer (sameProtocol al) (Protocol s) (Protocol old)
                \<or> pointersDiffer (sameTxnAtomicity al) (TxnAtomicity s) (TxnAtomicity old))
       then Inr (None, s)
       else if (txnAtomicityDiffers old u \<or> protocolDiffers old u)
               \<and> (txnAtomicityDiffers s u \<or> protocolDiffers s u)
       then Inr (None, uriWins s u)
       else Inr (fst (projr (applyParameterBySinkURI s (Some u))), uriWins s u))"
  by (simp add: CheckCompatibilityWithSinkURI_def assms isURIParamsChanged_eq
      applyParameterBySinkURI_eq Let_def)

lemma applyParameterBySinkURI_result:
  "\<exists>err. applyParameterBySinkURI s (Some u) = Inr (err, uriWins s u)
         \<and> Equal ErrIncompatibleSinkConfig err = (txnAtomicityDiffers s u \<or> protocolDiffers s u)
         \<and> (err \<noteq> None \<longrightarrow> Equal ErrIncompatibleSinkConfig err)"
  by (simp add: applyParameterBySinkURI_eq)

subsection \<open>Validation\<close>

lemma validate_code: "validate I l scheme = Some err \<Longrightarrow> code err = ErrSinkURIInvalid"
  by (auto simp: validate_def GenWithStackByArgs_def split: if_splits)

lemma validateAndAdjustSinkURI_eq:
  "validateAndAdjustSinkURI I s (Some u) =
     Inr (checkSchemeParameters I u (uriWins s u), uriWins s u)"
proof -
  let ?s = "uriWins s u"
  have "validateAndAdjustSinkURI I s (Some u) =
     (case validate I (GetOrZero_string (TxnAtomicity ?s)) (Scheme u) of
        Some err \<Rightarrow> Inr (Some err, ?s)
      | None \<Rightarrow>
          if IsMQScheme I (Scheme u) \<or> IsStorageScheme I (Scheme u) then
            (case snd (ParseSinkProtocolFromString I (GetOrZero_string (Protocol ?s))) of
               Some err \<Rightarrow> Inr (Some err, ?s)
             | None \<Rightarrow> Inr (None, ?s))
          else if IsMySQLCompatibleScheme I (Scheme u) \<and> Protocol ?s \<noteq> None then
            Inr (Some (GenWithStackByArgs ErrSinkURIInvalid
                   [''protocol '' @ GetOrZero_string (Protocol ?s)
                    @ '' is incompatible with '' @ Scheme u @ '' scheme'']), ?s)
          else Inr (None, ?s))"
    by (simp add: validateAndAdjustSinkURI_def applyParameterBySinkURI_eq)
  also have "\<dots> = Inr (checkSchemeParameters I u ?s, ?s)"
    by (cases "validate I (GetOrZero_string (TxnAtomicity ?s)) (Scheme u)";
        cases "snd (ParseSinkProtocolFromString I (GetOrZero_string (Protocol ?s)))")
       (auto simp: checkSchemeParameters_def GenWithStackByArgs_def)
  finally show ?thesis .
qed

lemma validateAndAdjustSinkURI_None: "validateAndAdjustSinkURI I s None = Inr (None, s)"
  by (simp add: validateAndAdjustSinkURI_def)

lemma checkSchemeParameters_code:
  assumes "checkSchemeParameters I u s = Some e"
  shows "code e = ErrSinkURIInvalid
         \<or> (\<exists>p. snd (ParseSinkProtocolFromString I p) = Some e)"
proof (cases "validate I (GetOrZero_string (TxnAtomicity s)) (Scheme u)")
  case (Some err)
  with assms have "e = err" by (simp add: checkSchemeParameters_def)
  with Some validate_code show ?thesis by blast
next
  case None
  with assms show ?thesis
    by (auto simp: checkSchemeParameters_def split: if_splits)
qed

lemma validateAndAdjust_eq:
  "validateAndAdjust I s (Some u) =
     Inr (case checkSchemeParameters I u (uriWins s u) of
            Some err \<Rightarrow> (Some err, uriWins s u)
          | None \<Rightarrow>
              if IsMySQLCompatibleScheme I (Scheme u) then (None, uriWins s u)
              else validateRules I u (uriWins s u))"
  by (cases "checkSchemeParameters I u (uriWins s u)")
     (simp_all add: validateAndAdjust_def validateAndAdjustSinkURI_eq)

lemma validateAndAdjust_None:
  "validateAndAdjust I s None = Inl (Panic ''invalid memory address or nil pointer dereference'')"
  by (simp add: validateAndAdjust_def validateAndAdjustSinkURI_None)

lemma uriWins_FileIndexWidth [simp]: "FileIndexWidth (uriWins s u) = FileIndexWidth s"
  by (simp add: uriWins_def)

lemma uriWins_update_FileIndexWidth:
  "uriWins (s\<lparr>FileIndexWidth := w\<rparr>) u = (uriWins s u)\<lparr>FileIndexWidth := w\<rparr>"
  by (simp add: uriWins_def)

lemma checkSchemeParameters_update_FileIndexWidth:
  "checkSchemeParameters I u (s\<lparr>FileIndexWidth := w\<rparr>) = checkSchemeParameters I u s"
  by (auto simp: checkSchemeParameters_def split: option.splits)

lemma validateStorage_error_cong:
  assumes "DateSeparator s = DateSeparator t" and "CSVConfig s = CSVConfig t"
  shows "fst (validateStorage s) = fst (validateStorage t)"
  by (cases "FromString (GetOrZero_string (DateSeparator t))")
     (simp_all add: validateStorage_def Let_def assms)

lemma validateStorage_FileIndexWidth:
  "fst (validateStorage s) = None \<Longrightarrow>
   FileIndexWidth (snd (validateStorage s)) =
     (if 6 \<le> GetOrZero_int (FileIndexWidth s) \<and> GetOrZero_int (FileIndexWidth s) \<le> 20
      then FileIndexWidth s else Some 20)"
  by (auto simp: validateStorage_def Let_def MinFileIndexWidth_def MaxFileIndexWidth_def
      DefaultFileIndexWidth_def AddressOf_def WrapError_def split: sum.splits)

lemma validateStorage_in_range:
  "6 \<le> GetOrZero_int (FileIndexWidth s) \<Longrightarrow> GetOrZero_int (FileIndexWidth s) \<le> 20 \<Longrightarrow>
   FileIndexWidth (snd (validateStorage s)) = FileIndexWidth s"
  by (auto simp: validateStorage_def Let_def MinFileIndexWidth_def MaxFileIndexWidth_def
      split: sum.splits)

lemma validateRules_error_FileIndexWidth:
  "fst (validateRules I u (s\<lparr>FileIndexWidth := w\<rparr>)) = fst (validateRules I u s)"
proof -
  obtain err rules where a: "adjustDispatchRules (DispatchRules s) = (err, rules)"
    by (cases "adjustDispatchRules (DispatchRules s)")
  have st: "fst (validateStorage (t\<lparr>FileIndexWidth := w, DispatchRules := rules\<rparr>)) =
            fst (validateStorage (t\<lparr>DispatchRules := rules\<rparr>))"
    "fst (validateStorage (t\<lparr>FileIndexWidth := w, DispatchRules := rules, Terminator := x\<rparr>)) =
     fst (validateStorage (t\<lparr>DispatchRules := rules, Terminator := x\<rparr>))" for t x
    by (rule validateStorage_error_cong; simp)+
  show ?thesis
    by (cases err) (auto simp: validateRules_def a Let_def st)
qed

lemma validateRules_FileIndexWidth:
  assumes "IsStorageScheme I (Scheme u)" and "fst (validateRules I u s) = None"
  shows "FileIndexWidth (snd (validateRules I u s)) =
     (if 6 \<le> GetOrZero_int (FileIndexWidth s) \<and> GetOrZero_int (FileIndexWidth s) \<le> 20
      then FileIndexWidth s else Some 20)"
proof -
  obtain err rules where a: "adjustDispatchRules (DispatchRules s) = (err, rules)"
    by (cases "adjustDispatchRules (DispatchRules s)")
  let ?t = "if Terminator s = None then s\<lparr>DispatchRules := rules, Terminator := AddressOf CRLF\<rparr>
            else s\<lparr>DispatchRules := rules\<rparr>"
  have f: "FileIndexWidth ?t = FileIndexWidth s" by simp
  have "validateRules I u s = validateStorage ?t"
    using assms by (cases err) (auto simp: validateRules_def a Let_def split: if_splits)
  with assms(2) validateStorage_FileIndexWidth [of ?t] show ?thesis
    by (simp only: f)
qed

lemma validateRules_in_range:
  assumes "6 \<le> GetOrZero_int (FileIndexWidth s)" and "GetOrZero_int (FileIndexWidth s) \<le> 20"
  shows "FileIndexWidth (snd (validateRules I u s)) = FileIndexWidth s"
proof -
  obtain err rules where a: "adjustDispatchRules (DispatchRules s) = (err, rules)"
    by (cases "adjustDispatchRules (DispatchRules s)")
  have st: "FileIndexWidth (snd (validateStorage t)) = FileIndexWidth s"
    if "FileIndexWidth t = FileIndexWidth s" for t
    using validateStorage_in_range [of t] assms that by simp
  show ?thesis
    by (cases err) (auto simp: validateRules_def a Let_def st)
qed

text \<open>
  Claim C6, as amended. \<open>applyParameterBySinkURI\<close> writes every non-empty value of
  the URI into the configuration (the URI wins). It records the pair of the transaction
  atomicity in both maps exactly when the value of the URI and the value of the
  configuration are both non-empty and differ. It records the pair of the protocol in
  both maps exactly when the value of the URI is non-empty, the protocol field of the
  configuration is set, be it to the empty text, and its value differs from the URI's.
  It returns \<open>nil\<close> when both maps are empty and otherwise \<open>IncompatibleSinkConfig\<close>
  with the texts of both maps.
\<close>

theorem applyParameterBySinkURI_reconciles:
  "collectParameters s u = (inSinkURI s u, inFile s u, uriWins s u)
   \<and> applyParameterBySinkURI s (Some u) =
       Inr (if inSinkURI s u = [] \<and> inFile s u = [] then None
            else Some (Error ErrIncompatibleSinkConfig
                         [showPairs (inSinkURI s u), showPairs (inFile s u)]),
            uriWins s u)"
  by (simp add: collectParameters_eq applyParameterBySinkURI_eq inSinkURI_Nil inFile_Nil)

text \<open>
  The sixth scenario of the spec: the configuration says \<open>canal-json\<close>, the URI
  \<open>open\<close>.
\<close>

theorem applyParameterBySinkURI_reconciles_witness:
  "applyParameterBySinkURI (baseConfig\<lparr>Protocol := Some ''canal-json''\<rparr>) (Some kafkaOpen) =
     Inr (Some (Error ErrIncompatibleSinkConfig [''protocol=open'', ''protocol=canal-json'']),
          baseConfig\<lparr>Protocol := Some ''open''\<rparr>)"
  using applyParameterBySinkURI_reconciles [of "baseConfig\<lparr>Protocol := Some ''canal-json''\<rparr>" kafkaOpen]
  by (simp add: inSinkURI_def inFile_def uriWins_def txnAtomicityDiffers_def protocolDiffers_def
      kafkaOpen_def uriOf_def Get_def TxnAtomicityKey_def ProtocolKey_def GetOrZero_string_def
      baseConfig_def)

text \<open>
  Claim C6 as stated fails: a configuration whose protocol field is set to the empty
  text supplies no non-empty value, and yet the pair is recorded in both maps and the
  error is returned.
\<close>

theorem applyParameterBySinkURI_empty_protocol_counterexample:
  "GetOrZero_string (Protocol (baseConfig\<lparr>Protocol := Some []\<rparr>)) = []
   \<and> collectParameters (baseConfig\<lparr>Protocol := Some []\<rparr>) kafkaOpen =
       ([(''protocol'', ''open'')], [(''protocol'', [])], baseConfig\<lparr>Protocol := Some ''open''\<rparr>)
   \<and> applyParameterBySinkURI (baseConfig\<lparr>Protocol := Some []\<rparr>) (Some kafkaOpen) =
       Inr (Some (Error ErrIncompatibleSinkConfig [''protocol=open'', ''protocol='']),
            baseConfig\<lparr>Protocol := Some ''open''\<rparr>)"
  by (simp add: applyParameterBySinkURI_def collectParameters_def getError_def getErrMsg_def
      Let_def kafkaOpen_def uriOf_def Get_def TxnAtomicityKey_def ProtocolKey_def
      GetOrZero_string_def baseConfig_def unknownTxnAtomicity_def AddressOf_def
      GenWithStackByArgs_def)

lemma pointersDiffer_iff:
  "(\<not> pointersDiffer same p q) =
     (p = None \<and> q = None \<or> p \<noteq> None \<and> q \<noteq> None \<and> same)"
  by (cases p; cases q) (simp_all add: pointersDiffer_def)

text \<open>
  Claim C7. Let the URI parse, and let the two flags of pointer identity be consistent
  with the values (one pointer, one value). Reconciling the old configuration gives
  \<open>uriErr\<close>, reconciling the new one gives \<open>cfgErr\<close> and the configuration \<open>s'\<close>
  with the values of the URI written in. Then \<open>CheckCompatibilityWithSinkURI\<close> returns
  \<open>nil\<close> when \<open>uriErr\<close> is no \<open>IncompatibleSinkConfig\<close> and protocol and
  transaction atomicity have the same values in both configurations; otherwise it
  returns \<open>nil\<close> when both \<open>uriErr\<close> and \<open>cfgErr\<close> are
  \<open>IncompatibleSinkConfig\<close>, and \<open>cfgErr\<close> in every other case. The new
  configuration is left as it was when \<open>uriErr\<close> is no \<open>IncompatibleSinkConfig\<close>
  and, for both fields, the old and the new configuration hold the same pointer (both
  \<open>nil\<close>, or both set and one pointer: the source compares pointers); in every other
  case the reconciliation has been applied to it and it is \<open>s'\<close>.
\<close>

theorem CheckCompatibilityWithSinkURI_cases:
  assumes "url_Parse I sinkURIStr = Inr u"
    and "sameProtocol al \<longrightarrow> Protocol s = Protocol old"
    and "sameTxnAtomicity al \<longrightarrow> TxnAtomicity s = TxnAtomicity old"
  shows "\<exists>uriErr old' cfgErr s'.
      applyParameterBySinkURI old (Some u) = Inr (uriErr, old')
    \<and> applyParameterBySinkURI s (Some u) = Inr (cfgErr, s')
    \<and> s' = uriWins s u
    \<and> CheckCompatibilityWithSinkURI I al s old sinkURIStr =
        Inr (if \<not> Equal ErrIncompatibleSinkConfig uriErr
                \<and> Protocol s = Protocol old \<and> TxnAtomicity s = TxnAtomicity old
             then None
             else if Equal ErrIncompatibleSinkConfig uriErr
                     \<and> Equal ErrIncompatibleSinkConfig cfgErr
             then None
             else cfgErr,
             if \<not> Equal ErrIncompatibleSinkConfig uriErr
                \<and> (Protocol s = None \<and> Protocol old = None
                     \<or> Protocol s \<noteq> None \<and> Protocol old \<noteq> None \<and> sameProtocol al)
                \<and> (TxnAtomicity s = None \<and> TxnAtomicity old = None
                     \<or> TxnAtomicity s \<noteq> None \<and> TxnAtomicity old \<noteq> None
                       \<and> sameTxnAtomicity al)
             then s
             else s')"
proof -
  from applyParameterBySinkURI_result [of old u] obtain uriErr where
    a1: "applyParameterBySinkURI old (Some u) = Inr (uriErr, uriWins old u)"
    and eU: "Equal ErrIncompatibleSinkConfig uriErr
               = (txnAtomicityDiffers old u \<or> protocolDiffers old u)"
    by blast
  from applyParameterBySinkURI_result [of s u] obtain cfgErr where
    a2: "applyParameterBySinkURI s (Some u) = Inr (cfgErr, uriWins s u)"
    and eC: "Equal ErrIncompatibleSinkConfig cfgErr
               = (txnAtomicityDiffers s u \<or> protocolDiffers s u)"
    and nC: "cfgErr \<noteq> None \<longrightarrow> Equal ErrIncompatibleSinkConfig cfgErr"
    by blast
  define U where "U = Equal ErrIncompatibleSinkConfig uriErr"
  define E where "E = Equal ErrIncompatibleSinkConfig cfgErr"
  define CP where "CP = pointersDiffer (sameProtocol al) (Protocol s) (Protocol old)"
  define CT where
    "CT = pointersDiffer (sameTxnAtomicity al) (TxnAtomicity s) (TxnAtomicity old)"
  define same where "same = (Protocol s = Protocol old \<and> TxnAtomicity s = TxnAtomicity old)"
  have chk: "CheckCompatibilityWithSinkURI I al s old sinkURIStr =
      (if \<not> U \<and> \<not> (CP \<or> CT) then Inr (None, s)
       else if U \<and> E then Inr (None, uriWins s u)
       else Inr (cfgErr, uriWins s u))"
    unfolding U_def E_def CP_def CT_def eU eC
    by (simp add: CheckCompatibilityWithSinkURI_eq [OF assms(1)] a2)
  have sameE: "E = U" if same
    using that unfolding E_def U_def eC eU same_def
    by (simp add: protocolDiffers_def txnAtomicityDiffers_def)
  have noE: "cfgErr = None" if "\<not> E"
    using that nC unfolding E_def by blast
  have diffC: "CP \<or> CT" if "\<not> same"
    using that assms(2,3)
      pointersDiffer_values [of "sameProtocol al" "Protocol s" "Protocol old"]
      pointersDiffer_values [of "sameTxnAtomicity al" "TxnAtomicity s" "TxnAtomicity old"]
    unfolding CP_def CT_def same_def by blast
  have "CheckCompatibilityWithSinkURI I al s old sinkURIStr =
        Inr (if \<not> U \<and> same then None else if U \<and> E then None else cfgErr,
             if \<not> U \<and> \<not> CP \<and> \<not> CT then s else uriWins s u)"
  proof (cases "\<not> U \<and> \<not> (CP \<or> CT)")
    case True
    with diffC have same by blast
    with True show ?thesis by (simp add: chk)
  next
    case False
    note early = False
    show ?thesis
    proof (cases "U \<and> E")
      case True
      with early show ?thesis by (simp add: chk)
    next
      case False
      have "cfgErr = None" if "\<not> U" same
      proof -
        from that sameE have "\<not> E" by simp
        then show ?thesis by (rule noE)
      qed
      with early False show ?thesis by (auto simp: chk)
    qed
  qed
  then have r: "CheckCompatibilityWithSinkURI I al s old sinkURIStr =
        Inr (if \<not> Equal ErrIncompatibleSinkConfig uriErr
                \<and> Protocol s = Protocol old \<and> TxnAtomicity s = TxnAtomicity old
             then None
             else if Equal ErrIncompatibleSinkConfig uriErr
                     \<and> Equal ErrIncompatibleSinkConfig cfgErr
             then None
             else cfgErr,
             if \<not> Equal ErrIncompatibleSinkConfig uriErr
                \<and> (Protocol s = None \<and> Protocol old = None
                     \<or> Protocol s \<noteq> None \<and> Protocol old \<noteq> None \<and> sameProtocol al)
                \<and> (TxnAtomicity s = None \<and> TxnAtomicity old = None
                     \<or> TxnAtomicity s \<noteq> None \<and> TxnAtomicity old \<noteq> None
                       \<and> sameTxnAtomicity al)
             then s
             else uriWins s u)"
    by (simp only: U_def E_def CP_def CT_def same_def pointersDiffer_iff)
  show ?thesis
    by (intro exI conjI) (rule a1, rule a2, rule refl, rule r)
qed

text \<open>
  The URI says \<open>open\<close>. A change from \<open>canal-json\<close> to \<open>avro\<close> is accepted, since
  the old configuration disagreed with the URI as well, and the new configuration is
  left with \<open>open\<close>; a change from no protocol to \<open>canal-json\<close> is rejected, and
  the configuration is left with \<open>open\<close> as well. A configuration checked against
  itself, pointer for pointer, is accepted: with \<open>canal-json\<close> it is reconciled to
  \<open>open\<close>, with no protocol at all it is left as it was, without the protocol of the
  URI.
\<close>

theorem CheckCompatibilityWithSinkURI_cases_witness:
  "url_Parse exampleImports kafkaOpenStr = Inr kafkaOpen
   \<and> \<not> sameProtocol noAliasing \<and> \<not> sameTxnAtomicity noAliasing
   \<and> CheckCompatibilityWithSinkURI exampleImports noAliasing
         (baseConfig\<lparr>Protocol := Some ''avro''\<rparr>)
         (baseConfig\<lparr>Protocol := Some ''canal-json''\<rparr>) kafkaOpenStr =
       Inr (None, baseConfig\<lparr>Protocol := Some ''open''\<rparr>)
   \<and> CheckCompatibilityWithSinkURI exampleImports noAliasing
         (baseConfig\<lparr>Protocol := Some ''canal-json''\<rparr>) baseConfig kafkaOpenStr =
       Inr (Some (Error ErrIncompatibleSinkConfig [''protocol=open'', ''protocol=canal-json'']),
            baseConfig\<lparr>Protocol := Some ''open''\<rparr>)
   \<and> sameProtocol samePointers \<and> sameTxnAtomicity samePointers
   \<and> CheckCompatibilityWithSinkURI exampleImports samePointers
         (baseConfig\<lparr>Protocol := Some ''canal-json''\<rparr>)
         (baseConfig\<lparr>Protocol := Some ''canal-json''\<rparr>) kafkaOpenStr =
       Inr (None, baseConfig\<lparr>Protocol := Some ''open''\<rparr>)
   \<and> CheckCompatibilityWithSinkURI exampleImports samePointers baseConfig baseConfig
         kafkaOpenStr = Inr (None, baseConfig)"
proof -
  let ?avro = "baseConfig\<lparr>Protocol := Some ''avro''\<rparr>"
  let ?canal = "baseConfig\<lparr>Protocol := Some ''canal-json''\<rparr>"
  let ?open = "baseConfig\<lparr>Protocol := Some ''open''\<rparr>"
  have p: "url_Parse exampleImports kafkaOpenStr = Inr kafkaOpen"
    by (simp add: exampleImports_def kafkaOpenStr_def)
  have n: "\<not> sameProtocol noAliasing" "\<not> sameTxnAtomicity noAliasing"
    by (simp_all add: noAliasing_def)
  have y: "sameProtocol samePointers" "sameTxnAtomicity samePointers"
    by (simp_all add: samePointers_def)
  have a0: "applyParameterBySinkURI baseConfig (Some kafkaOpen) = Inr (None, ?open)"
    by code_simp
  have a1: "applyParameterBySinkURI ?canal (Some kafkaOpen) =
      Inr (Some (Error ErrIncompatibleSinkConfig [''protocol=open'', ''protocol=canal-json'']),
           ?open)"
    by code_simp
  have a2: "applyParameterBySinkURI ?avro (Some kafkaOpen) =
      Inr (Some (Error ErrIncompatibleSinkConfig [''protocol=open'', ''protocol=avro'']),
           ?open)"
    by code_simp
  have d: "Protocol ?avro \<noteq> Protocol ?canal" "Protocol ?canal \<noteq> Protocol baseConfig"
    "Protocol baseConfig = None" "TxnAtomicity baseConfig = None"
    by (simp_all add: baseConfig_def)
  from CheckCompatibilityWithSinkURI_cases [of exampleImports kafkaOpenStr kafkaOpen noAliasing
      ?avro ?canal] p n a1 a2
  have w1: "CheckCompatibilityWithSinkURI exampleImports noAliasing ?avro ?canal kafkaOpenStr =
      Inr (None, ?open)"
    by auto
  from CheckCompatibilityWithSinkURI_cases [of exampleImports kafkaOpenStr kafkaOpen noAliasing
      ?canal baseConfig] p n a0 a1 d
  have w2: "CheckCompatibilityWithSinkURI exampleImports noAliasing ?canal baseConfig
              kafkaOpenStr =
      Inr (Some (Error ErrIncompatibleSinkConfig [''protocol=open'', ''protocol=canal-json'']),
           ?open)"
    by auto
  from CheckCompatibilityWithSinkURI_cases [of exampleImports kafkaOpenStr kafkaOpen samePointers
      ?canal ?canal] p a1
  have w3: "CheckCompatibilityWithSinkURI exampleImports samePointers ?canal ?canal
              kafkaOpenStr = Inr (None, ?open)"
    by auto
  from CheckCompatibilityWithSinkURI_cases [of exampleImports kafkaOpenStr kafkaOpen samePointers
      baseConfig baseConfig] p a0 d
  have w4: "CheckCompatibilityWithSinkURI exampleImports samePointers baseConfig baseConfig
              kafkaOpenStr = Inr (None, baseConfig)"
    by auto
  from p n w1 w2 y w3 w4 show ?thesis by (intro conjI)
qed

text \<open>
  Claim C8. The file index width never causes an error: whether \<open>validateAndAdjust\<close>
  fails, and with which error, does not depend on it. When the validation against a
  storage scheme (one that is not MySQL compatible as well) returns \<open>nil\<close>, a width
  outside \<open>[6, 20]\<close>, or an unset one, has become 20, and a width inside the range is
  what it was. A width inside the range is left as it is whatever the validation returns.
\<close>

theorem validateAndAdjust_file_index_width:
  "map_sum id fst (validateAndAdjust I (s\<lparr>FileIndexWidth := w\<rparr>) uri)
     = map_sum id fst (validateAndAdjust I s uri)
   \<and> (IsStorageScheme I (Scheme u) \<and> \<not> IsMySQLCompatibleScheme I (Scheme u)
        \<and> validateAndAdjust I s (Some u) = Inr (None, s')
      \<longrightarrow> FileIndexWidth s' =
            (if 6 \<le> GetOrZero_int (FileIndexWidth s) \<and> GetOrZero_int (FileIndexWidth s) \<le> 20
             then FileIndexWidth s else Some 20))
   \<and> (6 \<le> GetOrZero_int (FileIndexWidth s) \<and> GetOrZero_int (FileIndexWidth s) \<le> 20
        \<and> validateAndAdjust I s uri = Inr (err, s'')
      \<longrightarrow> FileIndexWidth s'' = FileIndexWidth s)"
proof (intro conjI impI)
  show "map_sum id fst (validateAndAdjust I (s\<lparr>FileIndexWidth := w\<rparr>) uri)
     = map_sum id fst (validateAndAdjust I s uri)"
  proof (cases uri)
    case None
    then show ?thesis by (simp add: validateAndAdjust_None)
  next
    case (Some v)
    then show ?thesis
      by (cases "checkSchemeParameters I v (uriWins s v)")
         (simp_all add: validateAndAdjust_eq uriWins_update_FileIndexWidth
            checkSchemeParameters_update_FileIndexWidth validateRules_error_FileIndexWidth)
  qed
next
  assume h: "IsStorageScheme I (Scheme u) \<and> \<not> IsMySQLCompatibleScheme I (Scheme u)
        \<and> validateAndAdjust I s (Some u) = Inr (None, s')"
  then have st: "IsStorageScheme I (Scheme u)" and my: "\<not> IsMySQLCompatibleScheme I (Scheme u)"
    and v: "validateAndAdjust I s (Some u) = Inr (None, s')" by simp_all
  from v my have "validateRules I u (uriWins s u) = (None, s')"
    by (cases "checkSchemeParameters I u (uriWins s u)") (simp_all add: validateAndAdjust_eq)
  with validateRules_FileIndexWidth [OF st, of "uriWins s u"]
  show "FileIndexWidth s' =
            (if 6 \<le> GetOrZero_int (FileIndexWidth s) \<and> GetOrZero_int (FileIndexWidth s) \<le> 20
             then FileIndexWidth s else Some 20)"
    by simp
next
  assume h: "6 \<le> GetOrZero_int (FileIndexWidth s) \<and> GetOrZero_int (FileIndexWidth s) \<le> 20
        \<and> validateAndAdjust I s uri = Inr (err, s'')"
  then have r: "6 \<le> GetOrZero_int (FileIndexWidth s)" "GetOrZero_int (FileIndexWidth s) \<le> 20"
    and v: "validateAndAdjust I s uri = Inr (err, s'')" by simp_all
  show "FileIndexWidth s'' = FileIndexWidth s"
  proof (cases uri)
    case None
    with v show ?thesis by (simp add: validateAndAdjust_None)
  next
    case (Some x)
    have "FileIndexWidth (snd (validateRules I x (uriWins s x))) = FileIndexWidth s"
      using validateRules_in_range [of "uriWins s x" I x] r by simp
    with v Some show ?thesis
      by (cases "checkSchemeParameters I x (uriWins s x)")
         (auto simp: validateAndAdjust_eq split: if_splits)
  qed
qed

text \<open>Widths 8, 3 and unset, validated against an \<open>s3\<close> URI.\<close>

theorem validateAndAdjust_file_index_width_witness:
  "IsStorageScheme exampleImports (Scheme s3URI)
   \<and> \<not> IsMySQLCompatibleScheme exampleImports (Scheme s3URI)
   \<and> validateAndAdjust exampleImports (csvConfig (Some 8)) (Some s3URI) =
       Inr (None, csvConfig (Some 8)\<lparr>Terminator := Some CRLF\<rparr>)
   \<and> FileIndexWidth (csvConfig (Some 8)\<lparr>Terminator := Some CRLF\<rparr>) = Some 8
   \<and> validateAndAdjust exampleImports (csvConfig (Some 3)) (Some s3URI) =
       Inr (None, csvConfig (Some 20)\<lparr>Terminator := Some CRLF\<rparr>)
   \<and> validateAndAdjust exampleImports (csvConfig None) (Some s3URI) =
       Inr (None, csvConfig (Some 20)\<lparr>Terminator := Some CRLF\<rparr>)
   \<and> FileIndexWidth (csvConfig (Some 20)\<lparr>Terminator := Some CRLF\<rparr>) = Some 20
   \<and> map_sum id fst (validateAndAdjust exampleImports
         (csvConfig (Some 8)\<lparr>FileIndexWidth := Some 3\<rparr>) (Some s3URI))
       = map_sum id fst (validateAndAdjust exampleImports (csvConfig (Some 8)) (Some s3URI))"
proof -
  have st: "IsStorageScheme exampleImports (Scheme s3URI)"
    and my: "\<not> IsMySQLCompatibleScheme exampleImports (Scheme s3URI)"
    by (simp_all add: exampleImports_def s3URI_def uriOf_def)
  have v8: "validateAndAdjust exampleImports (csvConfig (Some 8)) (Some s3URI) =
       Inr (None, csvConfig (Some 8)\<lparr>Terminator := Some CRLF\<rparr>)"
    by code_simp
  have v3: "validateAndAdjust exampleImports (csvConfig (Some 3)) (Some s3URI) =
       Inr (None, csvConfig (Some 20)\<lparr>Terminator := Some CRLF\<rparr>)"
    by code_simp
  have v0: "validateAndAdjust exampleImports (csvConfig None) (Some s3URI) =
       Inr (None, csvConfig (Some 20)\<lparr>Terminator := Some CRLF\<rparr>)"
    by code_simp
  have r8: "6 \<le> GetOrZero_int (FileIndexWidth (csvConfig (Some 8)))"
    "GetOrZero_int (FileIndexWidth (csvConfig (Some 8))) \<le> 20"
    by (simp_all add: csvConfig_def GetOrZero_int_def)
  have r3: "\<not> 6 \<le> GetOrZero_int (FileIndexWidth (csvConfig (Some 3)))"
    by (simp add: csvConfig_def GetOrZero_int_def)
  have f8: "FileIndexWidth (csvConfig (Some 8)) = Some 8" by (simp add: csvConfig_def)
  from validateAndAdjust_file_index_width [where I = exampleImports and s = "csvConfig (Some 8)"
      and w = "Some 3" and uri = "Some s3URI" and u = s3URI
      and s' = "csvConfig (Some 8)\<lparr>Terminator := Some CRLF\<rparr>" and err = None
      and s'' = "csvConfig (Some 8)\<lparr>Terminator := Some CRLF\<rparr>"] st my v8 r8 f8
  have w8: "FileIndexWidth (csvConfig (Some 8)\<lparr>Terminator := Some CRLF\<rparr>) = Some 8"
    and ni: "map_sum id fst (validateAndAdjust exampleImports
         (csvConfig (Some 8)\<lparr>FileIndexWidth := Some 3\<rparr>) (Some s3URI))
       = map_sum id fst (validateAndAdjust exampleImports (csvConfig (Some 8)) (Some s3URI))"
    by simp_all
  from validateAndAdjust_file_index_width [where I = exampleImports and s = "csvConfig (Some 3)"
      and u = s3URI and s' = "csvConfig (Some 20)\<lparr>Terminator := Some CRLF\<rparr>"] st my v3 r3
  have w3: "FileIndexWidth (csvConfig (Some 20)\<lparr>Terminator := Some CRLF\<rparr>) = Some 20"
    by simp
  from st my v8 w8 v3 v0 w3 ni show ?thesis by (intro conjI)
qed

text \<open>
  Claim C9. For every configuration and URI the two maps of
  \<open>applyParameterBySinkURI\<close> have the same number of entries, under the same keys, so
  \<open>getError\<close> returns and does not panic, and neither does
  \<open>applyParameterBySinkURI\<close>, with or without a URI.
\<close>

theorem maps_have_equal_size:
  "(case collectParameters s u of
      (cfgInSinkURI, cfgInFile, s') \<Rightarrow>
        length cfgInSinkURI = length cfgInFile
        \<and> map fst cfgInSinkURI = map fst cfgInFile
        \<and> (\<exists>err. getError cfgInSinkURI cfgInFile = Inr err))
   \<and> (\<exists>err s'. applyParameterBySinkURI s uri = Inr (err, s'))"
proof -
  have "\<exists>err s'. applyParameterBySinkURI s uri = Inr (err, s')"
    by (cases uri) (simp_all add: applyParameterBySinkURI_None applyParameterBySinkURI_eq)
  then show ?thesis
    by (simp add: collectParameters_eq length_maps keys_maps getError_maps)
qed

text \<open>Both parameters in conflict: two entries in each map.\<close>

theorem maps_have_equal_size_witness:
  "collectParameters (baseConfig\<lparr>Protocol := Some ''canal-json'', TxnAtomicity := Some ''table''\<rparr>)
     (uriOf ''kafka'' [(''protocol'', ''open''), (''transaction-atomicity'', ''none'')]) =
     ([(''transaction-atomicity'', ''none''), (''protocol'', ''open'')],
      [(''transaction-atomicity'', ''table''), (''protocol'', ''canal-json'')],
      baseConfig\<lparr>Protocol := Some ''open'', TxnAtomicity := Some ''none''\<rparr>)
   \<and> (\<exists>err s'. applyParameterBySinkURI
          (baseConfig\<lparr>Protocol := Some ''canal-json'', TxnAtomicity := Some ''table''\<rparr>)
          (Some (uriOf ''kafka'' [(''protocol'', ''open''), (''transaction-atomicity'', ''none'')]))
        = Inr (err, s'))"
  using maps_have_equal_size
    [of "baseConfig\<lparr>Protocol := Some ''canal-json'', TxnAtomicity := Some ''table''\<rparr>"
        "uriOf ''kafka'' [(''protocol'', ''open''), (''transaction-atomicity'', ''none'')]"
        "Some (uriOf ''kafka'' [(''protocol'', ''open''), (''transaction-atomicity'', ''none'')])"]
  by (simp add: collectParameters_def Let_def uriOf_def Get_def TxnAtomicityKey_def
      ProtocolKey_def GetOrZero_string_def baseConfig_def unknownTxnAtomicity_def AddressOf_def)

text \<open>
  Claim C10. Provided the parser of protocol names returns no error of the kind
  \<open>IncompatibleSinkConfig\<close>, \<open>validateAndAdjustSinkURI\<close> returns (it does not panic)
  and what it returns is never an \<open>IncompatibleSinkConfig\<close>. The disagreement that
  \<open>applyParameterBySinkURI\<close> reports is dropped: the validation answers as it does for
  the configuration with the values of the URI written in, and that is the
  configuration it leaves.
\<close>

theorem validateAndAdjustSinkURI_swallows:
  assumes "\<forall>p e. snd (ParseSinkProtocolFromString I p) = Some e \<longrightarrow>
                  code e \<noteq> ErrIncompatibleSinkConfig"
  shows "(\<exists>err s'. validateAndAdjustSinkURI I s uri = Inr (err, s')
            \<and> \<not> Equal ErrIncompatibleSinkConfig err)
       \<and> validateAndAdjustSinkURI I s (Some u) = validateAndAdjustSinkURI I (uriWins s u) (Some u)
       \<and> (\<exists>err. validateAndAdjustSinkURI I s (Some u) = Inr (err, uriWins s u))"
proof (intro conjI)
  show "\<exists>err s'. validateAndAdjustSinkURI I s uri = Inr (err, s')
            \<and> \<not> Equal ErrIncompatibleSinkConfig err"
  proof (cases uri)
    case None
    then show ?thesis by (simp add: validateAndAdjustSinkURI_None)
  next
    case (Some v)
    have "\<not> Equal ErrIncompatibleSinkConfig (checkSchemeParameters I v (uriWins s v))"
    proof (cases "checkSchemeParameters I v (uriWins s v)")
      case None
      then show ?thesis by simp
    next
      case (Some e)
      from checkSchemeParameters_code [OF Some] assms have "code e \<noteq> ErrIncompatibleSinkConfig"
        by auto
      with Some show ?thesis by simp
    qed
    with Some show ?thesis by (simp add: validateAndAdjustSinkURI_eq)
  qed
  show "validateAndAdjustSinkURI I s (Some u) = validateAndAdjustSinkURI I (uriWins s u) (Some u)"
    by (simp add: validateAndAdjustSinkURI_eq)
  show "\<exists>err. validateAndAdjustSinkURI I s (Some u) = Inr (err, uriWins s u)"
    by (simp add: validateAndAdjustSinkURI_eq)
qed

text \<open>
  The configuration says \<open>canal-json\<close>, the URI \<open>open\<close>: the reconciliation
  reports the conflict, the validation returns \<open>nil\<close>.
\<close>

theorem validateAndAdjustSinkURI_swallows_witness:
  "applyParameterBySinkURI (baseConfig\<lparr>Protocol := Some ''canal-json''\<rparr>) (Some kafkaOpen) =
     Inr (Some (Error ErrIncompatibleSinkConfig [''protocol=open'', ''protocol=canal-json'']),
          baseConfig\<lparr>Protocol := Some ''open''\<rparr>)
   \<and> validateAndAdjustSinkURI exampleImports (baseConfig\<lparr>Protocol := Some ''canal-json''\<rparr>)
       (Some kafkaOpen) = Inr (None, baseConfig\<lparr>Protocol := Some ''open''\<rparr>)
   \<and> (\<exists>err s'. validateAndAdjustSinkURI exampleImports
          (baseConfig\<lparr>Protocol := Some ''canal-json''\<rparr>) (Some kafkaOpen) = Inr (err, s')
        \<and> \<not> Equal ErrIncompatibleSinkConfig err)
   \<and> validateAndAdjustSinkURI exampleImports (baseConfig\<lparr>Protocol := Some ''canal-json''\<rparr>)
       (Some kafkaOpen)
     = validateAndAdjustSinkURI exampleImports
         (uriWins (baseConfig\<lparr>Protocol := Some ''canal-json''\<rparr>) kafkaOpen) (Some kafkaOpen)"
proof -
  have p: "\<forall>p e. snd (ParseSinkProtocolFromString exampleImports p) = Some e \<longrightarrow>
                  code e \<noteq> ErrIncompatibleSinkConfig"
    by (auto simp: exampleImports_def split: if_splits)
  have a: "applyParameterBySinkURI (baseConfig\<lparr>Protocol := Some ''canal-json''\<rparr>) (Some kafkaOpen) =
     Inr (Some (Error ErrIncompatibleSinkConfig [''protocol=open'', ''protocol=canal-json'']),
          baseConfig\<lparr>Protocol := Some ''open''\<rparr>)"
    by code_simp
  have v: "validateAndAdjustSinkURI exampleImports (baseConfig\<lparr>Protocol := Some ''canal-json''\<rparr>)
       (Some kafkaOpen) = Inr (None, baseConfig\<lparr>Protocol := Some ''open''\<rparr>)"
    by code_simp
  note t = validateAndAdjustSinkURI_swallows [where I = exampleImports
      and s = "baseConfig\<lparr>Protocol := Some ''canal-json''\<rparr>" and uri = "Some kafkaOpen"
      and u = kafkaOpen, OF p]
  show ?thesis
    by (intro conjI) (rule a, rule v, rule t [THEN conjunct1],
      rule t [THEN conjunct2, THEN conjunct1])
qed

end
